theory Spec2Isabelle
  imports Complex_Main "HOL-Library.Word"
begin

unbundle bit_operations_syntax

section \<open>JavaScript numbers and bitwise operators\<close>

text \<open>
  The muxer (\<^verbatim>\<open>ArrayBufferDataStream\<close>, \<^verbatim>\<open>webm-writer\<close>) is plain JavaScript. The numbers it
  handles in the byte writer are integers, modelled as \<^typ>\<open>int\<close>. A bitwise operator first
  converts each operand with ToInt32 (the low 32 bits, read as two's complement), works on
  the 32-bit pattern and returns the signed reading of the result. The shift count is taken
  modulo 32. A store into a \<^verbatim>\<open>Uint8Array\<close> keeps the low 8 bits (ToUint8).
\<close>

definition toInt32 :: "int \<Rightarrow> 32 word" where
  "toInt32 x = word_of_int x"

definition toUint8 :: "int \<Rightarrow> 8 word" where
  "toUint8 x = word_of_int x"

definition js_or :: "int \<Rightarrow> int \<Rightarrow> int" where
  "js_or a b = sint (toInt32 a OR toInt32 b)"

definition js_and :: "int \<Rightarrow> int \<Rightarrow> int" where
  "js_and a b = sint (toInt32 a AND toInt32 b)"

definition js_shl :: "int \<Rightarrow> nat \<Rightarrow> int" where
  "js_shl a n = sint (push_bit (n mod 32) (toInt32 a))"

definition js_sar :: "int \<Rightarrow> nat \<Rightarrow> int" where
  "js_sar a n = sint (signed_drop_bit (n mod 32) (toInt32 a))"

text \<open>
  \<^verbatim>\<open>(i / 4294967296) & 0x7\<close>: the quotient is a fraction, and ToInt32 truncates it towards
  zero before taking the low 32 bits.
\<close>

definition js_trunc_quot :: "int \<Rightarrow> int \<Rightarrow> int" where
  "js_trunc_quot a b = sgn a * sgn b * (\<bar>a\<bar> div \<bar>b\<bar>)"

section \<open>Errors\<close>

text \<open>
  Every \<^verbatim>\<open>throw new Error(...)\<close> of the sources is one constructor, named after its message:
  \<^item> \<open>Bad_EBML_VINT_size w\<close>: \<^verbatim>\<open>"Bad EBML VINT size " + width\<close>;
  \<^item> \<open>EBML_VINT_size_not_supported v\<close>: \<^verbatim>\<open>"EBML VINT size not supported " + val\<close>;
  \<^item> \<open>Bad_UINT_size w\<close>: \<^verbatim>\<open>"Bad UINT size " + width\<close>;
  \<^item> \<open>Pos_beyond_end_of_buffer\<close>: \<^verbatim>\<open>"ArrayBufferDataStream's pos lies beyond end of buffer"\<close>;
  \<^item> \<open>Bad_EBML_datatype\<close>: \<^verbatim>\<open>"Bad EBML datatype " + typeof ebml.data\<close>;
  \<^item> \<open>TrackNumber_out_of_range\<close>: \<^verbatim>\<open>"TrackNumber must be > 0 and < 127"\<close>;
  \<^item> \<open>Clip_cannot_be_rendered\<close>: \<^verbatim>\<open>"clip cannot be rendered"\<close>;
  \<^item> \<open>TypeError_undefined\<close>: the TypeError the engine raises when a property of
    \<^verbatim>\<open>undefined\<close> is read.
\<close>

datatype error =
    Bad_EBML_VINT_size int
  | EBML_VINT_size_not_supported int
  | Bad_UINT_size int
  | Pos_beyond_end_of_buffer
  | Bad_EBML_datatype
  | TrackNumber_out_of_range
  | Clip_cannot_be_rendered
  | TypeError_undefined

section \<open>ArrayBufferDataStream\<close>

text \<open>
  \<^verbatim>\<open>data\<close> is a \<^verbatim>\<open>Uint8Array\<close> of fixed length, \<^verbatim>\<open>pos\<close> the cursor. An assignment to
  an index at or beyond the length of a typed array is ignored; the cursor advances all the
  same.
\<close>

record ArrayBufferDataStream =
  data :: "8 word list"
  pos :: nat

definition new_ArrayBufferDataStream :: "nat \<Rightarrow> ArrayBufferDataStream" where
  "new_ArrayBufferDataStream len = \<lparr>data = replicate len 0, pos = 0\<rparr>"

definition seek :: "ArrayBufferDataStream \<Rightarrow> nat \<Rightarrow> ArrayBufferDataStream" where
  "seek s toOffset = s\<lparr>pos := toOffset\<rparr>"

definition store :: "8 word list \<Rightarrow> nat \<Rightarrow> 8 word \<Rightarrow> 8 word list" where
  "store d i b = (if i < length d then d[i := b] else d)"

definition put :: "ArrayBufferDataStream \<Rightarrow> 8 word \<Rightarrow> ArrayBufferDataStream" where
  "put s b = \<lparr>data = store (data s) (pos s) b, pos = pos s + 1\<rparr>"

text \<open>\<^verbatim>\<open>writeBytes(arr)\<close> is called with byte arrays only (a \<^verbatim>\<open>Uint8Array\<close>, or \<^verbatim>\<open>[0, 0, 0, 0]\<close>).\<close>

fun writeBytes :: "ArrayBufferDataStream \<Rightarrow> 8 word list \<Rightarrow> ArrayBufferDataStream" where
  "writeBytes s [] = s"
| "writeBytes s (b # arr) = writeBytes (put s b) arr"

definition writeByte :: "ArrayBufferDataStream \<Rightarrow> int \<Rightarrow> ArrayBufferDataStream" where
  "writeByte s b = put s (toUint8 b)"

definition writeU8 :: "ArrayBufferDataStream \<Rightarrow> int \<Rightarrow> ArrayBufferDataStream" where
  "writeU8 s b = writeByte s b"

definition writeU16BE :: "ArrayBufferDataStream \<Rightarrow> int \<Rightarrow> ArrayBufferDataStream" where
  "writeU16BE s u = put (put s (toUint8 (js_sar u 8))) (toUint8 u)"

text \<open>
  A double is given by its IEEE 754 bit pattern. \<^verbatim>\<open>new Uint8Array(new Float64Array([d]).buffer)\<close>
  is its little-endian byte image; the loop writes it from the last byte down to the first.
\<close>

definition writeDoubleBE :: "ArrayBufferDataStream \<Rightarrow> 64 word \<Rightarrow> ArrayBufferDataStream" where
  "writeDoubleBE s d = writeBytes s (map (\<lambda>i. ucast (drop_bit (8 * i) d)) [7, 6, 5, 4, 3, 2, 1, 0])"

definition writeFloatBE :: "ArrayBufferDataStream \<Rightarrow> 32 word \<Rightarrow> ArrayBufferDataStream" where
  "writeFloatBE s d = writeBytes s (map (\<lambda>i. ucast (drop_bit (8 * i) d)) [3, 2, 1, 0])"

text \<open>\<^verbatim>\<open>writeString(s)\<close> stores \<^verbatim>\<open>s.charCodeAt(i)\<close>; strings are ASCII, one byte per character.\<close>

fun writeString :: "ArrayBufferDataStream \<Rightarrow> string \<Rightarrow> ArrayBufferDataStream" where
  "writeString s [] = s"
| "writeString s (c # cs) = writeString (put s (toUint8 (of_char c))) cs"

definition writeEBMLVarIntWidth ::
    "ArrayBufferDataStream \<Rightarrow> int \<Rightarrow> int \<Rightarrow> error + ArrayBufferDataStream" where
  "writeEBMLVarIntWidth s i width =
    (if width = 1 then
       Inr (writeU8 s (js_or (js_shl 1 7) i))
     else if width = 2 then
       Inr (writeU8 (writeU8 s (js_or (js_shl 1 6) (js_sar i 8))) i)
     else if width = 3 then
       Inr (writeU8 (writeU8 (writeU8 s (js_or (js_shl 1 5) (js_sar i 16))) (js_sar i 8)) i)
     else if width = 4 then
       Inr (writeU8 (writeU8 (writeU8 (writeU8 s
              (js_or (js_shl 1 4) (js_sar i 24))) (js_sar i 16)) (js_sar i 8)) i)
     else if width = 5 then
       Inr (writeU8 (writeU8 (writeU8 (writeU8 (writeU8 s
              (js_or (js_shl 1 3) (js_and (js_trunc_quot i 4294967296) 7)))
              (js_sar i 24)) (js_sar i 16)) (js_sar i 8)) i)
     else Inl (Bad_EBML_VINT_size width))"

definition measureEBMLVarInt :: "int \<Rightarrow> error + int" where
  "measureEBMLVarInt val =
    (if val < js_shl 1 7 - 1 then Inr 1
     else if val < js_shl 1 14 - 1 then Inr 2
     else if val < js_shl 1 21 - 1 then Inr 3
     else if val < js_shl 1 28 - 1 then Inr 4
     else if val < 34359738367 then Inr 5
     else Inl (EBML_VINT_size_not_supported val))"

definition writeEBMLVarInt :: "ArrayBufferDataStream \<Rightarrow> int \<Rightarrow> error + ArrayBufferDataStream" where
  "writeEBMLVarInt s i =
    (case measureEBMLVarInt i of
       Inl e \<Rightarrow> Inl e
     | Inr w \<Rightarrow> writeEBMLVarIntWidth s i w)"

definition measureUnsignedInt :: "int \<Rightarrow> int" where
  "measureUnsignedInt val =
    (if val < js_shl 1 8 then 1
     else if val < js_shl 1 16 then 2
     else if val < js_shl 1 24 then 3
     else if val < 4294967296 then 4
     else 5)"

text \<open>
  The \<^verbatim>\<open>switch\<close> of \<^verbatim>\<open>writeUnsignedIntBE\<close> falls through from the case of the width down
  to case 1; \<open>uint_from w\<close> is the code from \<^verbatim>\<open>case w\<close> to the \<^verbatim>\<open>break\<close>.
  \<^verbatim>\<open>Math.floor(u / 4294967296)\<close> is the floor of the quotient, \<open>div\<close> on \<^typ>\<open>int\<close>.
\<close>

definition uint_from1 :: "ArrayBufferDataStream \<Rightarrow> int \<Rightarrow> ArrayBufferDataStream" where
  "uint_from1 s u = writeU8 s u"

definition uint_from2 :: "ArrayBufferDataStream \<Rightarrow> int \<Rightarrow> ArrayBufferDataStream" where
  "uint_from2 s u = uint_from1 (writeU8 s (js_sar u 8)) u"

definition uint_from3 :: "ArrayBufferDataStream \<Rightarrow> int \<Rightarrow> ArrayBufferDataStream" where
  "uint_from3 s u = uint_from2 (writeU8 s (js_sar u 16)) u"

definition uint_from4 :: "ArrayBufferDataStream \<Rightarrow> int \<Rightarrow> ArrayBufferDataStream" where
  "uint_from4 s u = uint_from3 (writeU8 s (js_sar u 24)) u"

definition uint_from5 :: "ArrayBufferDataStream \<Rightarrow> int \<Rightarrow> ArrayBufferDataStream" where
  "uint_from5 s u = uint_from4 (writeU8 s (u div 4294967296)) u"

definition writeUnsignedIntBE ::
    "ArrayBufferDataStream \<Rightarrow> int \<Rightarrow> int option \<Rightarrow> error + ArrayBufferDataStream" where
  "writeUnsignedIntBE s u width =
    (let w = (case width of None \<Rightarrow> measureUnsignedInt u | Some w \<Rightarrow> w) in
     if w = 5 then Inr (uint_from5 s u)
     else if w = 4 then Inr (uint_from4 s u)
     else if w = 3 then Inr (uint_from3 s u)
     else if w = 2 then Inr (uint_from2 s u)
     else if w = 1 then Inr (uint_from1 s u)
     else Inl (Bad_UINT_size w))"

definition getAsDataArray :: "ArrayBufferDataStream \<Rightarrow> error + 8 word list" where
  "getAsDataArray s =
    (if pos s < length (data s) then Inr (take (pos s) (data s))
     else if pos s = length (data s) then Inr (data s)
     else Inl Pos_beyond_end_of_buffer)"

section \<open>An EBML VINT decoder\<close>

text \<open>
  The reference decoder of the round-trip properties, written from the format and not from
  the writer: the position of the highest set bit of the leading byte gives the width (one
  of the five classes, 1 to 5 bytes), and the remaining bits of the leading byte followed by
  the continuation bytes give the value, most significant byte first. It returns the value
  and the width, or \<open>None\<close> when the input is too short or the leading byte marks none of
  the five classes.
\<close>

definition vint_width :: "8 word \<Rightarrow> nat option" where
  "vint_width b =
    (if 128 \<le> uint b then Some 1
     else if 64 \<le> uint b then Some 2
     else if 32 \<le> uint b then Some 3
     else if 16 \<le> uint b then Some 4
     else if 8 \<le> uint b then Some 5
     else None)"

fun be_value :: "int \<Rightarrow> 8 word list \<Rightarrow> int" where
  "be_value acc [] = acc"
| "be_value acc (b # bs) = be_value (acc * 256 + uint b) bs"

definition decodeVINT :: "8 word list \<Rightarrow> (int \<times> nat) option" where
  "decodeVINT bs =
    (case bs of
       [] \<Rightarrow> None
     | b # rest \<Rightarrow>
         (case vint_width b of
            None \<Rightarrow> None
          | Some w \<Rightarrow>
              if length rest < w - 1 then None
              else Some (be_value (uint b - 2 ^ (8 - w)) (take (w - 1) rest), w)))"

text \<open>The usable maximum of the width class \<open>w\<close>: all value bits set is reserved.\<close>

definition usable_max :: "int \<Rightarrow> int" where
  "usable_max w = 2 ^ (7 * nat w) - 2"

section \<open>The EBML element tree writer\<close>

text \<open>
  What \<^verbatim>\<open>writeEBML\<close> accepts: an array of sibling elements, a string or a \<^verbatim>\<open>Uint8Array\<close>
  to copy verbatim, or an object with an \<^verbatim>\<open>id\<close>. The fields of such an object are
  \<^verbatim>\<open>id\<close>, \<^verbatim>\<open>size\<close> (absent, a number, or \<open>-1\<close> for unbounded), \<^verbatim>\<open>data\<close>, and the two
  fields \<^verbatim>\<open>offset\<close> and \<^verbatim>\<open>dataOffset\<close> that \<^verbatim>\<open>writeEBML\<close> stores into it. An \<^verbatim>\<open>id\<close> that
  is absent or 0 is falsy. \<open>NoData\<close> stands for data of any other type. A float is given
  by its bit pattern.
\<close>

datatype ebml =
    Siblings "ebml list"
  | RawString string
  | RawBytes "8 word list"
  | Element (el_id: int) (el_size: "int option") (el_data: ebml_data)
      (el_offset: "nat option") (el_dataOffset: "nat option")
and ebml_data =
    Children "ebml list"
  | Str string
  | Num int
  | EBMLFloat64 "64 word"
  | EBMLFloat32 "32 word"
  | Bytes "8 word list"
  | NoData

text \<open>
  \<^verbatim>\<open>writeEBML(buffer, bufferFileOffset, ebml)\<close> mutates the buffer and the element objects;
  the model returns both. \<open>writeEBML_each\<close> is the loop over an array. An exception leaves
  the function at once: the result is the error alone.
\<close>

fun writeEBML ::
    "ArrayBufferDataStream \<Rightarrow> nat \<Rightarrow> ebml \<Rightarrow> error + ArrayBufferDataStream \<times> ebml"
  and writeEBML_each ::
    "ArrayBufferDataStream \<Rightarrow> nat \<Rightarrow> ebml list \<Rightarrow> error + ArrayBufferDataStream \<times> ebml list"
where
  "writeEBML buffer bufferFileOffset (Siblings es) =
    (case writeEBML_each buffer bufferFileOffset es of
       Inl e \<Rightarrow> Inl e
     | Inr (b, es') \<Rightarrow> Inr (b, Siblings es'))"
| "writeEBML buffer bufferFileOffset (RawString s) = Inr (writeString buffer s, RawString s)"
| "writeEBML buffer bufferFileOffset (RawBytes bs) = Inr (writeBytes buffer bs, RawBytes bs)"
| "writeEBML buffer bufferFileOffset (Element eid esize edata eoff edoff) =
    (if eid = 0 then Inl Bad_EBML_datatype
     else
       let offset = pos buffer + bufferFileOffset in
       case writeUnsignedIntBE buffer eid None of
         Inl e \<Rightarrow> Inl e
       | Inr b1 \<Rightarrow>
          (case edata of
             Children kids \<Rightarrow>
               if esize = Some (- 1) then
                 let b2 = writeByte b1 255;
                     dataBegin = pos b2
                 in (case writeEBML_each b2 bufferFileOffset kids of
                       Inl e \<Rightarrow> Inl e
                     | Inr (b3, kids') \<Rightarrow>
                         Inr (b3, Element eid esize (Children kids') (Some offset)
                                    (Some (dataBegin + bufferFileOffset))))
               else
                 let sizePos = pos b1;
                     b2 = writeBytes b1 [0, 0, 0, 0];
                     dataBegin = pos b2
                 in (case writeEBML_each b2 bufferFileOffset kids of
                       Inl e \<Rightarrow> Inl e
                     | Inr (b3, kids') \<Rightarrow>
                         let dataEnd = pos b3;
                             size = int dataEnd - int dataBegin
                         in (case writeEBMLVarIntWidth (seek b3 sizePos) size 4 of
                               Inl e \<Rightarrow> Inl e
                             | Inr b4 \<Rightarrow>
                                 Inr (seek b4 dataEnd,
                                      Element eid (Some size) (Children kids') (Some offset)
                                        (Some (dataBegin + bufferFileOffset)))))
           | Str s \<Rightarrow>
               (case writeEBMLVarInt b1 (int (length s)) of
                  Inl e \<Rightarrow> Inl e
                | Inr b2 \<Rightarrow>
                    Inr (writeString b2 s,
                         Element eid esize edata (Some offset) (Some (pos b2 + bufferFileOffset))))
           | Num n \<Rightarrow>
               let size = (case esize of
                             None \<Rightarrow> measureUnsignedInt n
                           | Some z \<Rightarrow> if z = 0 then measureUnsignedInt n else z)
               in (case writeEBMLVarInt b1 size of
                     Inl e \<Rightarrow> Inl e
                   | Inr b2 \<Rightarrow>
                      (case writeUnsignedIntBE b2 n (Some size) of
                         Inl e \<Rightarrow> Inl e
                       | Inr b3 \<Rightarrow>
                           Inr (b3, Element eid (Some size) edata (Some offset)
                                      (Some (pos b2 + bufferFileOffset)))))
           | EBMLFloat64 d \<Rightarrow>
               (case writeEBMLVarInt b1 8 of
                  Inl e \<Rightarrow> Inl e
                | Inr b2 \<Rightarrow>
                    Inr (writeDoubleBE b2 d,
                         Element eid esize edata (Some offset) (Some (pos b2 + bufferFileOffset))))
           | EBMLFloat32 d \<Rightarrow>
               (case writeEBMLVarInt b1 4 of
                  Inl e \<Rightarrow> Inl e
                | Inr b2 \<Rightarrow>
                    Inr (writeFloatBE b2 d,
                         Element eid esize edata (Some offset) (Some (pos b2 + bufferFileOffset))))
           | Bytes bs \<Rightarrow>
               (case writeEBMLVarInt b1 (int (length bs)) of
                  Inl e \<Rightarrow> Inl e
                | Inr b2 \<Rightarrow>
                    Inr (writeBytes b2 bs,
                         Element eid esize edata (Some offset) (Some (pos b2 + bufferFileOffset))))
           | NoData \<Rightarrow> Inl Bad_EBML_datatype))"
| "writeEBML_each buffer bufferFileOffset [] = Inr (buffer, [])"
| "writeEBML_each buffer bufferFileOffset (e # es) =
    (case writeEBML buffer bufferFileOffset e of
       Inl err \<Rightarrow> Inl err
     | Inr (b, e') \<Rightarrow>
        (case writeEBML_each b bufferFileOffset es of
           Inl err \<Rightarrow> Inl err
         | Inr (b', es') \<Rightarrow> Inr (b', e' # es')))"

section \<open>The output sink\<close>

text \<open>
  Modelled from the spec: \<^verbatim>\<open>BlobBuffer\<close> (imported from \<^verbatim>\<open>./BlobBuffer\<close>) is not among the
  sources. The specification describes the output sink as append-only at a movable cursor,
  with \<^verbatim>\<open>write(bytes)\<close> at the current position and \<^verbatim>\<open>seek(offset)\<close>. The writer reads
  its cursor as \<^verbatim>\<open>blobBuffer.pos\<close>. The model keeps the cursor and the log of the writes,
  each with the offset it went to; a write advances the cursor by the number of bytes.
\<close>

record BlobBuffer =
  blob_pos :: nat
  blob_writes :: "(nat \<times> 8 word list) list"

definition new_BlobBuffer :: BlobBuffer where
  "new_BlobBuffer = \<lparr>blob_pos = 0, blob_writes = []\<rparr>"

definition blob_write :: "BlobBuffer \<Rightarrow> 8 word list \<Rightarrow> BlobBuffer" where
  "blob_write b bytes =
     \<lparr>blob_pos = blob_pos b + length bytes, blob_writes = blob_writes b @ [(blob_pos b, bytes)]\<rparr>"

definition blob_seek :: "BlobBuffer \<Rightarrow> nat \<Rightarrow> BlobBuffer" where
  "blob_seek b offset = b\<lparr>blob_pos := offset\<rparr>"

section \<open>WebMWriter\<close>

text \<open>
  An \<^verbatim>\<open>EncodedVideoChunk\<close> as \<^verbatim>\<open>addFrame\<close> reads it: its bytes, its \<^verbatim>\<open>timestamp\<close> in
  microseconds and its \<^verbatim>\<open>type\<close>, \<^verbatim>\<open>"key"\<close> or \<^verbatim>\<open>"delta"\<close>. Timestamps are JavaScript numbers,
  modelled as exact reals; \<^verbatim>\<open>Math.round(x)\<close> is \<open>\<lfloor>x + 1/2\<rfloor>\<close>, which is \<^const>\<open>round\<close>.
  \<^verbatim>\<open>addFrame\<close> ignores an argument whose constructor is not \<^verbatim>\<open>EncodedVideoChunk\<close>.
\<close>

datatype chunk_type = Key | Delta

record EncodedVideoChunk =
  chunk_bytes :: "8 word list"
  chunk_timestamp :: real
  chunk_type :: chunk_type

datatype addFrame_arg = Chunk EncodedVideoChunk | NotAChunk

text \<open>
  The object \<^verbatim>\<open>{frame, intime, type}\<close> that \<^verbatim>\<open>addFrame\<close> builds, and the same object once
  \<^verbatim>\<open>addFrameToCluster\<close> has stored \<^verbatim>\<open>trackNumber\<close> and \<^verbatim>\<open>timecode\<close> into it.
\<close>

record FrameIn =
  frame :: "8 word list"
  intime :: real
  frame_type :: chunk_type

record Frame = FrameIn +
  trackNumber :: int
  timecode :: int

text \<open>
  The variables that the constructor of \<^verbatim>\<open>WebMWriter\<close> closes over. The fields
  \<open>seekPoints_SegmentInfo\<close> and \<open>seekPoints_Tracks\<close> hold
  \<^verbatim>\<open>seekPoints.SegmentInfo.positionEBML.data\<close> and \<^verbatim>\<open>seekPoints.Tracks.positionEBML.data\<close>.
\<close>

record WebMWriter =
  options_codec :: string
  options_width :: int
  options_height :: int
  writtenHeader :: bool
  videoWidth :: int
  videoHeight :: int
  firstTimestampEver :: bool
  earliestTimestamp :: real
  clusterFrameBuffer :: "Frame list"
  clusterStartTime :: real
  clusterDuration :: int
  lastTimeCode :: real
  seekPoints_SegmentInfo :: int
  seekPoints_Tracks :: int
  ebmlSegment :: "ebml option"
  seekHead :: "ebml option"
  cues :: "ebml list"
  blobBuffer :: BlobBuffer

definition MAX_CLUSTER_DURATION_MSEC :: int where
  "MAX_CLUSTER_DURATION_MSEC = 5000"

definition DEFAULT_TRACK_NUMBER :: int where
  "DEFAULT_TRACK_NUMBER = 1"

definition new_WebMWriter :: "string \<Rightarrow> int \<Rightarrow> int \<Rightarrow> WebMWriter" where
  "new_WebMWriter codec width height =
    \<lparr>options_codec = codec, options_width = width, options_height = height,
     writtenHeader = False, videoWidth = 0, videoHeight = 0,
     firstTimestampEver = True, earliestTimestamp = 0,
     clusterFrameBuffer = [], clusterStartTime = 0, clusterDuration = 0, lastTimeCode = 0,
     seekPoints_SegmentInfo = 0, seekPoints_Tracks = 0,
     ebmlSegment = None, seekHead = None, cues = [], blobBuffer = new_BlobBuffer\<rparr>"

text \<open>
  \<^verbatim>\<open>fileOffset - ebmlSegment.dataOffset\<close>. Reading \<^verbatim>\<open>dataOffset\<close> of an \<^verbatim>\<open>ebmlSegment\<close> that
  is still \<^verbatim>\<open>undefined\<close> is a TypeError. \<^verbatim>\<open>writeHeader\<close> assigns \<^verbatim>\<open>ebmlSegment\<close> and writes
  it at once, which sets its \<^verbatim>\<open>dataOffset\<close>; the model stores the written element.
\<close>

definition fileOffsetToSegmentRelative :: "WebMWriter \<Rightarrow> nat \<Rightarrow> error + int" where
  "fileOffsetToSegmentRelative st fileOffset =
    (case ebmlSegment st of
       Some (Element _ _ _ _ (Some segmentDataOffset)) \<Rightarrow>
         Inr (int fileOffset - int segmentDataOffset)
     | _ \<Rightarrow> Inl TypeError_undefined)"

definition leaf :: "int \<Rightarrow> ebml_data \<Rightarrow> ebml" where
  "leaf eid edata = Element eid None edata None None"

definition seekPositionEBML :: ebml where
  "seekPositionEBML = Element 0x53ac (Some 5) (Num 0) None None"

definition seek_entry :: "8 word list \<Rightarrow> ebml" where
  "seek_entry seekPoint_id =
     leaf 0x4dbb (Children [leaf 0x53ab (Bytes seekPoint_id), seekPositionEBML])"

definition createSeekHead :: ebml where
  "createSeekHead =
     leaf 0x114d9b74 (Children
       [seek_entry [0x1c, 0x53, 0xbb, 0x6b],
        seek_entry [0x15, 0x49, 0xa9, 0x66],
        seek_entry [0x16, 0x54, 0xae, 0x6b]])"

definition ebmlHeader :: ebml where
  "ebmlHeader =
     leaf 0x1a45dfa3 (Children
       [leaf 0x4286 (Num 1),
        leaf 0x42f7 (Num 1),
        leaf 0x42f2 (Num 4),
        leaf 0x42f3 (Num 8),
        leaf 0x4282 (Str ''webm''),
        leaf 0x4287 (Num 2),
        leaf 0x4285 (Num 2)])"

definition segmentDuration :: ebml where
  "segmentDuration = leaf 0x4489 (EBMLFloat64 0)"

definition segmentInfo :: ebml where
  "segmentInfo =
     leaf 0x1549a966 (Children
       [leaf 0x2ad7b1 (Num 1000000),
        leaf 0x4d80 (Str ''webm-writer-js''),
        leaf 0x5741 (Str ''webm-writer-js''),
        segmentDuration])"

definition tracks :: "WebMWriter \<Rightarrow> ebml" where
  "tracks st =
     leaf 0x1654ae6b (Children
       [leaf 0xae (Children
         [leaf 0xd7 (Num DEFAULT_TRACK_NUMBER),
          leaf 0x73c5 (Num DEFAULT_TRACK_NUMBER),
          leaf 0x83 (Num 1),
          leaf 0xe0 (Children
            [leaf 0xb0 (Num (videoWidth st)),
             leaf 0xba (Num (videoHeight st))]),
          leaf 0x9c (Num 0),
          leaf 0x22b59c (Str ''und''),
          leaf 0xb9 (Num 1),
          leaf 0x88 (Num 1),
          leaf 0x55aa (Num 0),
          leaf 0x86 (Str (''V_'' @ options_codec st))])])"

text \<open>
  \<^verbatim>\<open>writeHeader\<close>: after the write, \<^verbatim>\<open>segmentInfo.offset\<close> and \<^verbatim>\<open>tracks.offset\<close> are read
  from the objects that \<^verbatim>\<open>writeEBML\<close> has updated, here from the tree it returns.
\<close>

definition writeHeader :: "WebMWriter \<Rightarrow> error + WebMWriter" where
  "writeHeader st =
    (let seekHead0 = createSeekHead;
         ebmlSegment0 = Element 0x18538067 (Some (- 1))
                          (Children [seekHead0, segmentInfo, tracks st]) None None;
         bufferStream = new_ArrayBufferDataStream 256
     in case writeEBML bufferStream (blob_pos (blobBuffer st)) (Siblings [ebmlHeader, ebmlSegment0]) of
          Inl e \<Rightarrow> Inl e
        | Inr (bufferStream', written) \<Rightarrow>
           (case getAsDataArray bufferStream' of
              Inl e \<Rightarrow> Inl e
            | Inr bytes \<Rightarrow>
               (case written of
                  Siblings [_, Element sid ssize (Children [seekHead', segmentInfo', tracks']) soff sdoff] \<Rightarrow>
                    let seg = Element sid ssize (Children [seekHead', segmentInfo', tracks']) soff sdoff;
                        st1 = st\<lparr>seekHead := Some seekHead', ebmlSegment := Some seg,
                                 blobBuffer := blob_write (blobBuffer st) bytes\<rparr>
                    in (case (el_offset segmentInfo', el_offset tracks') of
                          (Some segmentInfo_offset, Some tracks_offset) \<Rightarrow>
                            (case fileOffsetToSegmentRelative st1 segmentInfo_offset of
                               Inl e \<Rightarrow> Inl e
                             | Inr p1 \<Rightarrow>
                                (case fileOffsetToSegmentRelative st1 tracks_offset of
                                   Inl e \<Rightarrow> Inl e
                                 | Inr p2 \<Rightarrow>
                                     Inr (st1\<lparr>seekPoints_SegmentInfo := p1,
                                              seekPoints_Tracks := p2,
                                              writtenHeader := True\<rparr>)))
                        | _ \<Rightarrow> Inl TypeError_undefined)
                | _ \<Rightarrow> Inl TypeError_undefined)))"

definition createSimpleBlockForframe :: "Frame \<Rightarrow> error + ebml" where
  "createSimpleBlockForframe fr =
    (let bufferStream = new_ArrayBufferDataStream (1 + 2 + 1) in
     if \<not> (trackNumber fr > 0 \<and> trackNumber fr < 127) then Inl TrackNumber_out_of_range
     else
       case writeEBMLVarInt bufferStream (trackNumber fr) of
         Inl e \<Rightarrow> Inl e
       | Inr b1 \<Rightarrow>
           let b2 = writeU16BE b1 (timecode fr);
               b3 = writeByte b2 (js_shl (if frame_type fr = Key then 1 else 0) 7)
           in (case getAsDataArray b3 of
                 Inl e \<Rightarrow> Inl e
               | Inr header \<Rightarrow>
                   Inr (leaf 0xa3 (Children [RawBytes header, RawBytes (frame fr)]))))"

definition createCluster :: "real \<Rightarrow> ebml" where
  "createCluster cluster_timecode =
     leaf 0x1f43b675 (Children [leaf 0xe7 (Num (round cluster_timecode))])"

definition addCuePoint :: "WebMWriter \<Rightarrow> int \<Rightarrow> int \<Rightarrow> nat \<Rightarrow> error + WebMWriter" where
  "addCuePoint st trackIndex clusterTime clusterFileOffset =
    (case fileOffsetToSegmentRelative st clusterFileOffset of
       Inl e \<Rightarrow> Inl e
     | Inr position \<Rightarrow>
         Inr (st\<lparr>cues := cues st @
           [leaf 0xbb (Children
              [leaf 0xb3 (Num clusterTime),
               leaf 0xb7 (Children
                 [leaf 0xf7 (Num trackIndex),
                  leaf 0xf1 (Num position)])])]\<rparr>))"

text \<open>The loop that pushes one SimpleBlock per buffered frame onto \<^verbatim>\<open>cluster.data\<close>.\<close>

fun createSimpleBlocks :: "Frame list \<Rightarrow> error + ebml list" where
  "createSimpleBlocks [] = Inr []"
| "createSimpleBlocks (fr # frs) =
    (case createSimpleBlockForframe fr of
       Inl e \<Rightarrow> Inl e
     | Inr block \<Rightarrow>
        (case createSimpleBlocks frs of
           Inl e \<Rightarrow> Inl e
         | Inr blocks \<Rightarrow> Inr (block # blocks)))"

definition rawImageSize :: "Frame list \<Rightarrow> nat" where
  "rawImageSize frs = sum_list (map (\<lambda>fr. length (frame fr)) frs)"

text \<open>\<^verbatim>\<open>cluster.data.push(...)\<close>, for all the blocks at once.\<close>

definition data_push :: "ebml \<Rightarrow> ebml list \<Rightarrow> ebml" where
  "data_push e xs =
    (case e of
       Element eid esize (Children kids) eoff edoff \<Rightarrow>
         Element eid esize (Children (kids @ xs)) eoff edoff
     | _ \<Rightarrow> e)"

definition flushClusterFrameBuffer :: "WebMWriter \<Rightarrow> error + WebMWriter" where
  "flushClusterFrameBuffer st =
    (if length (clusterFrameBuffer st) = 0 then Inr st
     else
       let buffer = new_ArrayBufferDataStream
                      (rawImageSize (clusterFrameBuffer st) + length (clusterFrameBuffer st) * 64);
           cluster = createCluster (of_int (round (clusterStartTime st)))
       in case createSimpleBlocks (clusterFrameBuffer st) of
            Inl e \<Rightarrow> Inl e
          | Inr blocks \<Rightarrow>
             (case writeEBML buffer (blob_pos (blobBuffer st)) (data_push cluster blocks) of
                Inl e \<Rightarrow> Inl e
              | Inr (buffer', cluster') \<Rightarrow>
                 (case getAsDataArray buffer' of
                    Inl e \<Rightarrow> Inl e
                  | Inr bytes \<Rightarrow>
                     (case el_offset cluster' of
                        None \<Rightarrow> Inl TypeError_undefined
                      | Some cluster_offset \<Rightarrow>
                         (case addCuePoint (st\<lparr>blobBuffer := blob_write (blobBuffer st) bytes\<rparr>)
                                 DEFAULT_TRACK_NUMBER (round (clusterStartTime st))
                                 cluster_offset of
                            Inl e \<Rightarrow> Inl e
                          | Inr st' \<Rightarrow>
                              Inr (st'\<lparr>clusterFrameBuffer := [], clusterDuration := 0\<rparr>))))))"

text \<open>
  \<^verbatim>\<open>addFrameToCluster\<close> up to and including \<^verbatim>\<open>clusterDuration = frame.timecode + 1\<close>: the
  state in which the duration is tested against the maximum.
\<close>

definition addFrameToCluster_queue :: "WebMWriter \<Rightarrow> FrameIn \<Rightarrow> WebMWriter" where
  "addFrameToCluster_queue st fr =
    (let time0 = intime fr / 1000;
         time = (if firstTimestampEver st then 0 else time0 - earliestTimestamp st);
         st1 = (if firstTimestampEver st
                then st\<lparr>earliestTimestamp := time0, firstTimestampEver := False\<rparr>
                else st);
         st2 = st1\<lparr>lastTimeCode := time\<rparr>;
         st3 = (if clusterDuration st2 = 0 then st2\<lparr>clusterStartTime := time\<rparr> else st2);
         tc = round (time - clusterStartTime st3);
         queued = \<lparr>frame = frame fr, intime = intime fr, frame_type = frame_type fr,
                   trackNumber = DEFAULT_TRACK_NUMBER, timecode = tc\<rparr>
     in st3\<lparr>clusterFrameBuffer := clusterFrameBuffer st3 @ [queued],
            clusterDuration := tc + 1\<rparr>)"

definition addFrameToCluster :: "WebMWriter \<Rightarrow> FrameIn \<Rightarrow> error + WebMWriter" where
  "addFrameToCluster st fr =
    (let st' = addFrameToCluster_queue st fr in
     if clusterDuration st' \<ge> MAX_CLUSTER_DURATION_MSEC then flushClusterFrameBuffer st'
     else Inr st')"

definition addFrame :: "WebMWriter \<Rightarrow> addFrame_arg \<Rightarrow> error + WebMWriter" where
  "addFrame st arg =
    (case (if \<not> writtenHeader st
           then writeHeader (st\<lparr>videoWidth := options_width st, videoHeight := options_height st\<rparr>)
           else Inr st) of
       Inl e \<Rightarrow> Inl e
     | Inr st1 \<Rightarrow>
        (case arg of
           Chunk c \<Rightarrow>
             addFrameToCluster st1
               \<lparr>frame = chunk_bytes c, intime = chunk_timestamp c, frame_type = chunk_type c\<rparr>
         | NotAChunk \<Rightarrow> Inr st1))"

text \<open>A sequence of \<^verbatim>\<open>addFrame\<close> calls on one writer; it stops at the first exception.\<close>

fun addFrames :: "WebMWriter \<Rightarrow> addFrame_arg list \<Rightarrow> error + WebMWriter" where
  "addFrames st [] = Inr st"
| "addFrames st (arg # args) =
    (case addFrame st arg of
       Inl e \<Rightarrow> Inl e
     | Inr st' \<Rightarrow> addFrames st' args)"

text \<open>
  A write to the sink is a Cluster element when its bytes start with the Cluster id
  \<^verbatim>\<open>0x1f43b675\<close>.
\<close>

definition is_cluster_write :: "nat \<times> 8 word list \<Rightarrow> bool" where
  "is_cluster_write w = (take 4 (snd w) = [0x1f, 0x43, 0xb6, 0x75])"

definition clusters_written :: "WebMWriter \<Rightarrow> (nat \<times> 8 word list) list" where
  "clusters_written st = filter is_cluster_write (blob_writes (blobBuffer st))"

text \<open>The segment-relative cluster position that a cue point carries (\<^verbatim>\<open>CueClusterPosition\<close>).\<close>

definition cue_position :: "ebml \<Rightarrow> int option" where
  "cue_position cue =
    (case cue of
       Element _ _ (Children [_, Element _ _ (Children [_, Element _ _ (Num p) _ _]) _ _]) _ _ \<Rightarrow> Some p
     | _ \<Rightarrow> None)"

section \<open>JavaScript numbers that may be infinite or NaN\<close>

text \<open>
  The clip code divides numbers that may be zero. A finite number is a real (the rounding of
  doubles and the sign of zero are left out); a division of finite numbers gives an infinity
  or NaN when the divisor is zero. \<^verbatim>\<open>Math.floor\<close>, \<^verbatim>\<open>Math.max\<close> and \<^verbatim>\<open>Math.min\<close> return
  NaN as soon as an argument is NaN.
\<close>

datatype jsnum = Fin real | PosInf | NegInf | NaN

fun js_divide :: "jsnum \<Rightarrow> jsnum \<Rightarrow> jsnum" where
  "js_divide NaN _ = NaN"
| "js_divide _ NaN = NaN"
| "js_divide (Fin x) (Fin y) =
    (if y \<noteq> 0 then Fin (x / y)
     else if x > 0 then PosInf else if x < 0 then NegInf else NaN)"
| "js_divide (Fin x) _ = Fin 0"
| "js_divide PosInf (Fin y) = (if y \<ge> 0 then PosInf else NegInf)"
| "js_divide NegInf (Fin y) = (if y \<ge> 0 then NegInf else PosInf)"
| "js_divide _ _ = NaN"

fun Math_floor :: "jsnum \<Rightarrow> jsnum" where
  "Math_floor (Fin x) = Fin (of_int \<lfloor>x\<rfloor>)"
| "Math_floor x = x"

fun Math_max :: "jsnum \<Rightarrow> jsnum \<Rightarrow> jsnum" where
  "Math_max NaN _ = NaN"
| "Math_max _ NaN = NaN"
| "Math_max PosInf _ = PosInf"
| "Math_max _ PosInf = PosInf"
| "Math_max NegInf y = y"
| "Math_max x NegInf = x"
| "Math_max (Fin x) (Fin y) = Fin (max x y)"

fun Math_min :: "jsnum \<Rightarrow> jsnum \<Rightarrow> jsnum" where
  "Math_min NaN _ = NaN"
| "Math_min _ NaN = NaN"
| "Math_min NegInf _ = NegInf"
| "Math_min _ NegInf = NegInf"
| "Math_min PosInf y = y"
| "Math_min x PosInf = x"
| "Math_min (Fin x) (Fin y) = Fin (min x y)"

text \<open>
  \<^verbatim>\<open>xs[i]\<close> on an array: the element when \<open>i\<close> is an integer from 0 to the length minus
  one, \<^verbatim>\<open>undefined\<close> (here \<open>None\<close>) for every other number.
\<close>

definition array_get :: "'a list \<Rightarrow> jsnum \<Rightarrow> 'a option" where
  "array_get xs i =
    (case i of
       Fin r \<Rightarrow>
         if 0 \<le> r \<and> r = of_int \<lfloor>r\<rfloor> \<and> nat \<lfloor>r\<rfloor> < length xs then Some (xs ! nat \<lfloor>r\<rfloor>)
         else None
     | _ \<Rightarrow> None)"

section \<open>The drawing surface\<close>

text \<open>
  \<^verbatim>\<open>CanvasRenderingContext2D\<close> belongs to the browser. The model keeps its current
  transformation matrix \<open>[a c e; b d f; 0 0 1]\<close> and the list of the \<^verbatim>\<open>drawImage\<close> calls
  made, each with the matrix in force at the call. As the HTML standard defines them,
  \<^verbatim>\<open>transform\<close>, \<^verbatim>\<open>rotate\<close>, \<^verbatim>\<open>scale\<close> and \<^verbatim>\<open>translate\<close> multiply the current matrix on the
  right by the matrix of the operation. The sources call \<^verbatim>\<open>transform\<close> and \<^verbatim>\<open>rotate\<close>;
  \<^verbatim>\<open>scale\<close> and \<^verbatim>\<open>translate\<close> are here to state properties.
\<close>

record DOMMatrix =
  m_a :: real
  m_b :: real
  m_c :: real
  m_d :: real
  m_e :: real
  m_f :: real

definition matrix_multiply :: "DOMMatrix \<Rightarrow> DOMMatrix \<Rightarrow> DOMMatrix" where
  "matrix_multiply m n =
    \<lparr>m_a = m_a m * m_a n + m_c m * m_b n,
     m_b = m_b m * m_a n + m_d m * m_b n,
     m_c = m_a m * m_c n + m_c m * m_d n,
     m_d = m_b m * m_c n + m_d m * m_d n,
     m_e = m_a m * m_e n + m_c m * m_f n + m_e m,
     m_f = m_b m * m_e n + m_d m * m_f n + m_f m\<rparr>"

definition identity_matrix :: DOMMatrix where
  "identity_matrix = \<lparr>m_a = 1, m_b = 0, m_c = 0, m_d = 1, m_e = 0, m_f = 0\<rparr>"

record DrawCall =
  dc_image :: nat
  dc_dx :: real
  dc_dy :: real
  dc_dWidth :: real
  dc_dHeight :: real
  dc_transform :: DOMMatrix

record CanvasRenderingContext2D =
  currentTransform :: DOMMatrix
  drawn :: "DrawCall list"

definition getTransform :: "CanvasRenderingContext2D \<Rightarrow> DOMMatrix" where
  "getTransform canvas = currentTransform canvas"

definition setTransform :: "CanvasRenderingContext2D \<Rightarrow> DOMMatrix \<Rightarrow> CanvasRenderingContext2D" where
  "setTransform canvas m = canvas\<lparr>currentTransform := m\<rparr>"

definition transform ::
    "CanvasRenderingContext2D \<Rightarrow> real \<Rightarrow> real \<Rightarrow> real \<Rightarrow> real \<Rightarrow> real \<Rightarrow> real \<Rightarrow>
     CanvasRenderingContext2D" where
  "transform canvas a b c d e f =
     canvas\<lparr>currentTransform := matrix_multiply (currentTransform canvas)
        \<lparr>m_a = a, m_b = b, m_c = c, m_d = d, m_e = e, m_f = f\<rparr>\<rparr>"

definition rotate_canvas :: "CanvasRenderingContext2D \<Rightarrow> real \<Rightarrow> CanvasRenderingContext2D" where
  "rotate_canvas canvas angle =
     canvas\<lparr>currentTransform := matrix_multiply (currentTransform canvas)
        \<lparr>m_a = cos angle, m_b = sin angle, m_c = - sin angle, m_d = cos angle,
         m_e = 0, m_f = 0\<rparr>\<rparr>"

definition scale_canvas :: "CanvasRenderingContext2D \<Rightarrow> real \<Rightarrow> real \<Rightarrow> CanvasRenderingContext2D" where
  "scale_canvas canvas x y =
     canvas\<lparr>currentTransform := matrix_multiply (currentTransform canvas)
        \<lparr>m_a = x, m_b = 0, m_c = 0, m_d = y, m_e = 0, m_f = 0\<rparr>\<rparr>"

definition translate_canvas ::
    "CanvasRenderingContext2D \<Rightarrow> real \<Rightarrow> real \<Rightarrow> CanvasRenderingContext2D" where
  "translate_canvas canvas x y =
     canvas\<lparr>currentTransform := matrix_multiply (currentTransform canvas)
        \<lparr>m_a = 1, m_b = 0, m_c = 0, m_d = 1, m_e = x, m_f = y\<rparr>\<rparr>"

definition drawImage ::
    "CanvasRenderingContext2D \<Rightarrow> nat \<Rightarrow> real \<Rightarrow> real \<Rightarrow> real \<Rightarrow> real \<Rightarrow> CanvasRenderingContext2D" where
  "drawImage canvas img dx dy dWidth dHeight =
     canvas\<lparr>drawn := drawn canvas @
        [\<lparr>dc_image = img, dc_dx = dx, dc_dy = dy, dc_dWidth = dWidth, dc_dHeight = dHeight,
          dc_transform = currentTransform canvas\<rparr>]\<rparr>"

section \<open>Clips\<close>

record ClipProperties =
  renderStart :: real
  renderLength :: real
  posTop :: real
  posLeft :: real
  posWidth :: real
  posHeight :: real
  rotation :: real

text \<open>
  An \<^verbatim>\<open>ImageResource\<close> with the image that \<^verbatim>\<open>asImage()\<close> resolves to; loading the file is
  the browser's part. The classes of clips: \<^verbatim>\<open>ImageClip\<close>, \<^verbatim>\<open>ImageSequenceClip\<close> with its
  field \<^verbatim>\<open>microsecondsPerClip\<close>, and any other subclass of \<^verbatim>\<open>Clip\<close>, which may or may not
  define \<^verbatim>\<open>simpleRender\<close>.
\<close>

datatype ImageResource = ImageResource (asImage: nat)

type_synonym simple_render =
  "CanvasRenderingContext2D \<Rightarrow> real \<Rightarrow> real \<Rightarrow> real \<Rightarrow> error + CanvasRenderingContext2D"

datatype Clip =
    ImageClip ClipProperties ImageResource
  | ImageSequenceClip ClipProperties "ImageResource list" jsnum
  | OtherClip ClipProperties "simple_render option"

fun properties :: "Clip \<Rightarrow> ClipProperties" where
  "properties (ImageClip p _) = p"
| "properties (ImageSequenceClip p _ _) = p"
| "properties (OtherClip p _) = p"

definition clamp :: "jsnum \<Rightarrow> jsnum \<Rightarrow> jsnum \<Rightarrow> jsnum" where
  "clamp num mn mx = Math_min (Math_max num mn) mx"

definition ImageSequenceClip_update :: "ClipProperties \<Rightarrow> ImageResource list \<Rightarrow> jsnum" where
  "ImageSequenceClip_update p resources =
     js_divide (Fin (renderLength p)) (Fin (real (length resources)))"

text \<open>The constructor: the field starts at 0 and \<^verbatim>\<open>update()\<close> sets it.\<close>

definition new_ImageSequenceClip :: "ClipProperties \<Rightarrow> ImageResource list \<Rightarrow> Clip" where
  "new_ImageSequenceClip p resources =
     ImageSequenceClip p resources (ImageSequenceClip_update p resources)"

definition ImageSequenceClip_simpleRender ::
    "ImageResource list \<Rightarrow> jsnum \<Rightarrow> simple_render" where
  "ImageSequenceClip_simpleRender resources microsecondsPerClip canvas time width height =
    (if length resources < 1 then Inr canvas
     else
       let resourceIndex = clamp (Math_floor (js_divide (Fin time) microsecondsPerClip))
                             (Fin 0) (Fin (real (length resources) - 1))
       in case array_get resources resourceIndex of
            None \<Rightarrow> Inl TypeError_undefined
          | Some resource \<Rightarrow> Inr (drawImage canvas (asImage resource) 0 0 width height))"

definition ImageClip_simpleRender :: "ImageResource \<Rightarrow> simple_render" where
  "ImageClip_simpleRender resource canvas time width height =
     Inr (drawImage canvas (asImage resource) 0 0 width height)"

fun simpleRender :: "Clip \<Rightarrow> simple_render option" where
  "simpleRender (ImageClip p resource) = Some (ImageClip_simpleRender resource)"
| "simpleRender (ImageSequenceClip p resources microsecondsPerClip) =
     Some (ImageSequenceClip_simpleRender resources microsecondsPerClip)"
| "simpleRender (OtherClip p sr) = sr"

definition needsRender :: "Clip \<Rightarrow> real \<Rightarrow> bool" where
  "needsRender clip time =
    (if time \<ge> renderStart (properties clip) \<and>
        time < renderStart (properties clip) + renderLength (properties clip)
     then True else False)"

text \<open>
  \<^verbatim>\<open>Clip.render\<close>, one call run to its end. When the drawing routine throws, the exception
  leaves \<^verbatim>\<open>render\<close> before \<^verbatim>\<open>setTransform\<close>.
\<close>

definition render ::
    "Clip \<Rightarrow> CanvasRenderingContext2D \<Rightarrow> real \<Rightarrow> real \<Rightarrow> real \<Rightarrow> error + CanvasRenderingContext2D" where
  "render clip canvas time width height =
    (case simpleRender clip of
       Some sr \<Rightarrow>
         let oldTransform = getTransform canvas;
             canvas1 = transform canvas (posWidth (properties clip)) 0 0 (posHeight (properties clip))
                         (posLeft (properties clip)) (posTop (properties clip));
             canvas2 = rotate_canvas canvas1 (rotation (properties clip))
         in (case sr canvas2 (time - renderStart (properties clip)) width height of
               Inl e \<Rightarrow> Inl e
             | Inr canvas3 \<Rightarrow> Inr (setTransform canvas3 oldTransform))
     | None \<Rightarrow> Inl Clip_cannot_be_rendered)"

section \<open>The export loop\<close>

definition MAX_ENCODER_QUEUE_SIZE :: nat where
  "MAX_ENCODER_QUEUE_SIZE = 30"

definition KEYFRAME_FREQUENCY :: nat where
  "KEYFRAME_FREQUENCY = 150"

record RenderOptions =
  opt_start :: real
  opt_length :: real
  opt_width :: real
  opt_height :: real
  opt_fps :: real

text \<open>One call \<^verbatim>\<open>encoder.encode(frame, { keyFrame })\<close>, with the \<^verbatim>\<open>VideoFrame\<close> it passes.\<close>

record 'c EncodeCall =
  ec_canvas :: 'c
  ec_timestamp :: real
  ec_duration :: real
  ec_keyFrame :: bool

text \<open>
  The \<^verbatim>\<open>for\<close> loop of \<^verbatim>\<open>renderToWritableStream\<close>, from \<^verbatim>\<open>frameIndex\<close> on. The result is the
  list of the calls made to the encoder, and the exception that ended the loop, if any.
  \<^verbatim>\<open>renderFrame\<close> is a parameter: what it draws is of no concern here. The encoder is the
  browser's; the wait for its queue to drain changes nothing of the calls made and is left
  out.
\<close>

function encode_loop ::
    "(real \<Rightarrow> real \<Rightarrow> real \<Rightarrow> error + 'c) \<Rightarrow> RenderOptions \<Rightarrow> real \<Rightarrow> real \<Rightarrow> nat \<Rightarrow>
     'c EncodeCall list \<times> error option" where
  "encode_loop renderFrame options totalFrames frameLength frameIndex =
    (if real frameIndex < totalFrames then
       let frameStart = opt_start options + real frameIndex * frameLength in
       case renderFrame frameStart (opt_width options) (opt_height options) of
         Inl e \<Rightarrow> ([], Some e)
       | Inr frameCanvas \<Rightarrow>
           let keyFrame = (frameIndex mod KEYFRAME_FREQUENCY = 0);
               call = \<lparr>ec_canvas = frameCanvas, ec_timestamp = frameStart,
                       ec_duration = frameLength, ec_keyFrame = keyFrame\<rparr>;
               rest = encode_loop renderFrame options totalFrames frameLength (frameIndex + 1)
           in (call # fst rest, snd rest)
     else ([], None))"
  by pat_completeness auto
termination
proof (relation "measure (\<lambda>(renderFrame, options, totalFrames, frameLength, frameIndex).
        nat \<lceil>totalFrames\<rceil> - frameIndex)", goal_cases)
  case 1
  show ?case by simp
next
  case (2 renderFrame options totalFrames frameLength frameIndex frameCanvas)
  have "frameIndex < nat \<lceil>totalFrames\<rceil>"
    using 2(1) by linarith
  then show ?case by simp
qed

text \<open>
  \<^verbatim>\<open>totalFrames\<close> and \<^verbatim>\<open>frameLength\<close> as \<^verbatim>\<open>renderToWritableStream\<close> computes them;
  \<^verbatim>\<open>frameLength\<close> is read only inside the loop, where \<^verbatim>\<open>totalFrames\<close> is positive.
\<close>

definition renderToWritableStream_encodes ::
    "(real \<Rightarrow> real \<Rightarrow> real \<Rightarrow> error + 'c) \<Rightarrow> RenderOptions \<Rightarrow> 'c EncodeCall list \<times> error option" where
  "renderToWritableStream_encodes renderFrame options =
    (let totalFrames = opt_fps options * (opt_length options / 1000000);
         frameLength = opt_length options / totalFrames
     in encode_loop renderFrame options totalFrames frameLength 0)"

section \<open>Auxiliary notions for the proofs\<close>

text \<open>
  \<open>keeps q b b'\<close>: the buffers \<open>b\<close> and \<open>b'\<close> have the same capacity and the same bytes
  below offset \<open>q\<close>.
\<close>

definition keeps :: "nat \<Rightarrow> ArrayBufferDataStream \<Rightarrow> ArrayBufferDataStream \<Rightarrow> bool" where
  "keeps q b b' \<longleftrightarrow> length (data b') = length (data b) \<and> take q (data b') = take q (data b)"

text \<open>The cue point that \<^verbatim>\<open>addCuePoint\<close> pushes, for a cluster time and a position.\<close>

definition cue_point :: "int \<Rightarrow> int \<Rightarrow> ebml" where
  "cue_point clusterTime position =
     leaf 0xbb (Children
       [leaf 0xb3 (Num clusterTime),
        leaf 0xb7 (Children [leaf 0xf7 (Num DEFAULT_TRACK_NUMBER), leaf 0xf1 (Num position)])])"

text \<open>
  The first statement of \<^verbatim>\<open>addFrame\<close>: the header is written unless it has been written.
\<close>

definition header_step :: "WebMWriter \<Rightarrow> error + WebMWriter" where
  "header_step st =
    (if \<not> writtenHeader st
     then writeHeader (st\<lparr>videoWidth := options_width st, videoHeight := options_height st\<rparr>)
     else Inr st)"

text \<open>The object \<^verbatim>\<open>{frame, intime, type}\<close> that \<^verbatim>\<open>addFrame\<close> builds from a chunk.\<close>

definition frame_of :: "EncodedVideoChunk \<Rightarrow> FrameIn" where
  "frame_of c = \<lparr>frame = chunk_bytes c, intime = chunk_timestamp c, frame_type = chunk_type c\<rparr>"

text \<open>
  The normalized time of a chunk \<open>c\<close> that arrives after the chunks \<open>cs\<close>: 0 for the
  first chunk ever, and otherwise its timestamp in milliseconds minus that of the first
  chunk.
\<close>

definition normalized_time :: "EncodedVideoChunk list \<Rightarrow> EncodedVideoChunk \<Rightarrow> real" where
  "normalized_time cs c =
     (if cs = [] then 0 else chunk_timestamp c / 1000 - chunk_timestamp (hd cs) / 1000)"

text \<open>
  Invariants of the writer over a sequence of \<^verbatim>\<open>addFrame\<close> calls: the one about clusters,
  and the one about the time base after the chunks \<open>cs\<close>.
\<close>

definition cluster_inv :: "WebMWriter \<Rightarrow> bool" where
  "cluster_inv st \<longleftrightarrow>
     clusterDuration st < MAX_CLUSTER_DURATION_MSEC \<and>
     length (cues st) = length (clusters_written st)"

definition norm_inv :: "EncodedVideoChunk list \<Rightarrow> WebMWriter \<Rightarrow> bool" where
  "norm_inv cs st \<longleftrightarrow>
     (cs = [] \<longrightarrow> firstTimestampEver st \<and> clusterFrameBuffer st = []) \<and>
     (cs \<noteq> [] \<longrightarrow> \<not> firstTimestampEver st \<and>
        earliestTimestamp st = chunk_timestamp (hd cs) / 1000 \<and>
        lastTimeCode st = chunk_timestamp (last cs) / 1000 - chunk_timestamp (hd cs) / 1000) \<and>
     (clusterFrameBuffer st = [] \<longrightarrow> clusterDuration st = 0) \<and>
     (sorted (map chunk_timestamp cs) \<longrightarrow> clusterFrameBuffer st \<noteq> [] \<longrightarrow>
        clusterStartTime st \<le> lastTimeCode st \<and> 1 \<le> clusterDuration st)"

text \<open>
  A SimpleBlock element for the frame \<open>fr\<close>: a four-byte header followed by the bytes of
  the frame.
\<close>

definition block_shape :: "Frame \<Rightarrow> ebml \<Rightarrow> bool" where
  "block_shape fr block \<longleftrightarrow>
     (\<exists>h. length h = 4 \<and> block = leaf 0xa3 (Children [RawBytes h, RawBytes (frame fr)]))"

text \<open>
  What keeps a flush from throwing: the buffered frames carry the default track number,
  and once the header has been written the Segment has a data offset.
\<close>

definition ready_inv :: "WebMWriter \<Rightarrow> bool" where
  "ready_inv st \<longleftrightarrow>
     (\<forall>fr \<in> set (clusterFrameBuffer st). trackNumber fr = DEFAULT_TRACK_NUMBER) \<and>
     (writtenHeader st \<longrightarrow> (\<exists>p. fileOffsetToSegmentRelative st 0 = Inr p))"

section \<open>Facts about the byte writer\<close>

lemma js_shl_1 [simp]:
  "js_shl 1 3 = 8" "js_shl 1 4 = 16" "js_shl 1 5 = 32" "js_shl 1 6 = 64" "js_shl 1 7 = 128"
  "js_shl 1 8 = 256" "js_shl 1 14 = 16384" "js_shl 1 16 = 65536" "js_shl 1 21 = 2097152"
  "js_shl 1 24 = 16777216" "js_shl 1 28 = 268435456"
  by (simp_all add: js_shl_def toInt32_def)

lemma toUint8_js_sar: "n \<le> 24 \<Longrightarrow> toUint8 (js_sar v n) = word_of_int (v div 2 ^ n)"
  unfolding toUint8_def js_sar_def toInt32_def
  by (rule bit_word_eqI) (auto simp: bit_simps simp flip: drop_bit_eq_div)

lemma toUint8_js_or: "toUint8 (js_or a b) = word_of_int (a OR b)"
  unfolding toUint8_def js_or_def toInt32_def
  by (rule bit_word_eqI) (auto simp: bit_simps)

lemma toUint8_js_and: "toUint8 (js_and a b) = word_of_int (a AND b)"
  unfolding toUint8_def js_and_def toInt32_def
  by (rule bit_word_eqI) (auto simp: bit_simps)

lemma or_pow_int:
  assumes "0 \<le> x" "x < 2 ^ k"
  shows "(2 ^ k :: int) OR x = 2 ^ k + x"
proof -
  from assms have e: "take_bit k x = x"
    by (simp add: take_bit_int_eq_self)
  have "(2 ^ k :: int) AND take_bit k x = 0"
    by (rule bit_eqI) (auto simp: bit_simps)
  then have "(2 ^ k :: int) + take_bit k x = 2 ^ k OR take_bit k x"
    by (rule disjunctive_add_eq_or)
  with e show ?thesis by simp
qed

lemma uint_word8_of_int: "uint (word_of_int x :: 8 word) = x mod 256"
  by (simp add: uint_word_of_int)

lemma length_store [simp]: "length (store d i b) = length d"
  by (simp add: store_def)

lemma pos_put [simp]: "pos (put s b) = pos s + 1"
  by (simp add: put_def)

lemma length_data_put [simp]: "length (data (put s b)) = length (data s)"
  by (simp add: put_def)

lemma pos_writeBytes [simp]: "pos (writeBytes s arr) = pos s + length arr"
  by (induction arr arbitrary: s) auto

lemma length_data_writeBytes [simp]: "length (data (writeBytes s arr)) = length (data s)"
  by (induction arr arbitrary: s) auto

lemma pos_writeString [simp]: "pos (writeString s str) = pos s + length str"
  by (induction str arbitrary: s) auto

lemma length_data_writeString [simp]: "length (data (writeString s str)) = length (data s)"
  by (induction str arbitrary: s) auto

lemma data_put: "pos s < length (data s) \<Longrightarrow> data (put s b) = (data s)[pos s := b]"
  by (simp add: put_def store_def)

lemma data_writeBytes:
  "pos s + length bs \<le> length (data s) \<Longrightarrow>
   data (writeBytes s bs) = take (pos s) (data s) @ bs @ drop (pos s + length bs) (data s)"
proof (induction bs arbitrary: s)
  case Nil
  then show ?case by simp
next
  case (Cons b bs)
  then have p: "pos s < length (data s)" by simp
  have "data (writeBytes (put s b) bs) =
      take (pos (put s b)) (data (put s b)) @ bs @ drop (pos (put s b) + length bs) (data (put s b))"
    using Cons.prems by (intro Cons.IH) simp
  then show ?case using p
    by (simp add: data_put upd_conv_take_nth_drop take_Suc_conv_app_nth add.commute)
qed

lemma written_writeBytes:
  "pos s + length bs \<le> length (data s) \<Longrightarrow> n = length bs \<Longrightarrow>
   take n (drop (pos s) (data (writeBytes s bs))) = bs"
  by (simp add: data_writeBytes)

lemma toUint8_or_sar:
  "n \<le> 24 \<Longrightarrow> toUint8 (js_or a (js_sar v n)) = word_of_int (a OR (v div 2 ^ n))"
  unfolding toUint8_def js_sar_def js_or_def toInt32_def
  by (rule bit_word_eqI) (auto simp: bit_simps simp flip: drop_bit_eq_div)

lemma toUint8_or_and:
  "toUint8 (js_or a (js_and q m)) = word_of_int (a OR (q AND m))"
  unfolding toUint8_def js_and_def js_or_def toInt32_def
  by (rule bit_word_eqI) (auto simp: bit_simps)


lemma split8: "(v::int) mod (256 * c) = 256 * (v div 256 mod c) + v mod 256" if "0 \<le> c"
  using that by (rule zmod_zmult2_eq)

lemma div_div:
  "(v::int) div 256 div 256 = v div 65536" "(v::int) div 65536 div 256 = v div 16777216"
  "(v::int) div 16777216 div 256 = v div 4294967296" "(v::int) div 256 div 65536 = v div 16777216"
  using zdiv_zmult2_eq [of 256 v 256] zdiv_zmult2_eq [of 256 v 65536]
    zdiv_zmult2_eq [of 256 v 16777216] zdiv_zmult2_eq [of 65536 v 256]
  by simp_all

lemma lin3: "(256::int) * (256 * a + b) + c = 65536 * a + 256 * b + c"
  by simp

lemma lin4: "(256::int) * (65536 * a + 256 * b + c) + d = 16777216 * a + 65536 * b + 256 * c + d"
  by simp

lemma low16: "(v::int) mod 65536 = 256 * (v div 256 mod 256) + v mod 256"
  using split8 [of 256 v] by simp

lemma low24:
  "(v::int) mod 16777216 = 65536 * (v div 65536 mod 256) + 256 * (v div 256 mod 256) + v mod 256"
proof -
  have "v mod 16777216 = 256 * (v div 256 mod 65536) + v mod 256"
    using split8 [of 65536 v] by simp
  also have "v div 256 mod 65536 = 256 * (v div 65536 mod 256) + v div 256 mod 256"
    unfolding low16 [of "v div 256"] div_div ..
  finally show ?thesis unfolding lin3 lin4 .
qed

lemma low32: "(v::int) mod 4294967296 =
    16777216 * (v div 16777216 mod 256) + 65536 * (v div 65536 mod 256) +
    256 * (v div 256 mod 256) + v mod 256"
proof -
  have "v mod 4294967296 = 256 * (v div 256 mod 16777216) + v mod 256"
    using split8 [of 16777216 v] by simp
  also have "v div 256 mod 16777216 =
      65536 * (v div 16777216 mod 256) + 256 * (v div 65536 mod 256) + v div 256 mod 256"
    unfolding low24 [of "v div 256"] div_div ..
  finally show ?thesis unfolding lin3 lin4 .
qed

lemma be_value_bytes:
  "be_value acc [b0] = acc * 256 + uint b0"
  "be_value acc [b1, b0] = acc * 65536 + (256 * uint b1 + uint b0)"
  "be_value acc [b2, b1, b0] = acc * 16777216 + (65536 * uint b2 + 256 * uint b1 + uint b0)"
  "be_value acc [b3, b2, b1, b0] =
     acc * 4294967296 + (16777216 * uint b3 + 65536 * uint b2 + 256 * uint b1 + uint b0)"
  by simp_all

lemma be_value_1: "be_value acc [word_of_int v] = acc * 256 + v mod 256"
  unfolding be_value_bytes uint_word8_of_int ..

lemma be_value_2: "be_value acc [word_of_int (v div 256), word_of_int v] = acc * 65536 + v mod 65536"
  unfolding be_value_bytes uint_word8_of_int low16 [of v] ..

lemma be_value_3:
  "be_value acc [word_of_int (v div 65536), word_of_int (v div 256), word_of_int v]
     = acc * 16777216 + v mod 16777216"
  unfolding be_value_bytes uint_word8_of_int low24 [of v] ..

lemma be_value_4:
  "be_value acc [word_of_int (v div 16777216), word_of_int (v div 65536), word_of_int (v div 256),
      word_of_int v]
     = acc * 4294967296 + v mod 4294967296"
  unfolding be_value_bytes uint_word8_of_int low32 [of v] ..

lemma uint8_small: "0 \<le> x \<Longrightarrow> x < 256 \<Longrightarrow> uint (word_of_int x :: 8 word) = x"
  by (simp add: uint_word_of_int)

lemma lead_byte:
  assumes "0 \<le> x" "x < 2 ^ k" "k < 8"
  shows "uint (word_of_int (2 ^ k OR x) :: 8 word) = 2 ^ k + x"
proof -
  have "(2::int) ^ k \<le> 2 ^ 7"
    using assms(3) by (intro power_increasing) simp_all
  then have "2 ^ k + x < 256" using assms by simp
  then show ?thesis
    unfolding or_pow_int [OF assms(1,2)] using assms(1) by (intro uint8_small) simp_all
qed

lemma and_7: "0 \<le> q \<Longrightarrow> q < 8 \<Longrightarrow> q AND 7 = (q::int)"
  using take_bit_int_eq_self [of q 3] by (simp add: take_bit_eq_mask mask_eq_exp_minus_1)

lemma trunc_quot_nonneg: "0 \<le> a \<Longrightarrow> 0 < b \<Longrightarrow> js_trunc_quot a b = a div b"
  by (cases "a = 0") (simp_all add: js_trunc_quot_def)

lemma decode_lead:
  assumes "uint b = 2 ^ (8 - w) + x" "0 \<le> x" "x < 2 ^ (8 - w)" "1 \<le> w" "w \<le> 5"
    "length rest = w - 1"
  shows "decodeVINT (b # rest) = Some (be_value x rest, w)"
proof -
  have "w = 1 \<or> w = 2 \<or> w = 3 \<or> w = 4 \<or> w = 5" using assms(4,5) by arith
  then have "vint_width b = Some w"
    using assms(1,2,3) by (auto simp: vint_width_def)
  then show ?thesis using assms(1,6) by (simp add: decodeVINT_def)
qed

lemma decode_1:
  assumes "0 \<le> v" "v < 127"
  shows "decodeVINT [word_of_int (128 OR v)] = Some (v, 1)"
proof -
  have "uint (word_of_int (128 OR v) :: 8 word) = 2 ^ (8 - 1) + v"
    using lead_byte [of v 7] assms by simp
  from decode_lead [OF this, of "[]"] assms show ?thesis by simp
qed

lemma decode_2:
  assumes "0 \<le> v" "v < 16383"
  shows "decodeVINT [word_of_int (64 OR (v div 256)), word_of_int v] = Some (v, 2)"
proof -
  have x: "0 \<le> v div 256" "v div 256 < 64" using assms by simp_all
  then have "uint (word_of_int (64 OR (v div 256)) :: 8 word) = 2 ^ (8 - 2) + v div 256"
    using lead_byte [of "v div 256" 6] by simp
  from decode_lead [OF this, of "[word_of_int v]"] x
  have "decodeVINT [word_of_int (64 OR (v div 256)), word_of_int v]
      = Some (be_value (v div 256) [word_of_int v], 2)" by simp
  also have "be_value (v div 256) [word_of_int v] = v"
    unfolding be_value_1 by simp
  finally show ?thesis .
qed


lemma decode_3:
  assumes "0 \<le> v" "v < 2097151"
  shows "decodeVINT [word_of_int (32 OR (v div 65536)), word_of_int (v div 256), word_of_int v]
     = Some (v, 3)"
proof -
  have x: "0 \<le> v div 65536" "v div 65536 < 32" using assms by simp_all
  then have "uint (word_of_int (32 OR (v div 65536)) :: 8 word) = 2 ^ (8 - 3) + v div 65536"
    using lead_byte [of "v div 65536" 5] by simp
  from decode_lead [OF this, of "[word_of_int (v div 256), word_of_int v]"] x
  have "decodeVINT [word_of_int (32 OR (v div 65536)), word_of_int (v div 256), word_of_int v]
      = Some (be_value (v div 65536) [word_of_int (v div 256), word_of_int v], 3)" by simp
  also have "be_value (v div 65536) [word_of_int (v div 256), word_of_int v] = v"
    unfolding be_value_2 by simp
  finally show ?thesis .
qed

lemma decode_4:
  assumes "0 \<le> v" "v < 268435455"
  shows "decodeVINT [word_of_int (16 OR (v div 16777216)), word_of_int (v div 65536),
      word_of_int (v div 256), word_of_int v] = Some (v, 4)"
proof -
  have x: "0 \<le> v div 16777216" "v div 16777216 < 16" using assms by simp_all
  then have "uint (word_of_int (16 OR (v div 16777216)) :: 8 word) = 2 ^ (8 - 4) + v div 16777216"
    using lead_byte [of "v div 16777216" 4] by simp
  from decode_lead [OF this, of "[word_of_int (v div 65536), word_of_int (v div 256), word_of_int v]"] x
  have "decodeVINT [word_of_int (16 OR (v div 16777216)), word_of_int (v div 65536),
      word_of_int (v div 256), word_of_int v]
      = Some (be_value (v div 16777216) [word_of_int (v div 65536), word_of_int (v div 256),
          word_of_int v], 4)" by simp
  also have "be_value (v div 16777216) [word_of_int (v div 65536), word_of_int (v div 256),
          word_of_int v] = v"
    unfolding be_value_3 by simp
  finally show ?thesis .
qed

lemma decode_5:
  assumes "0 \<le> v" "v < 34359738368"
  shows "decodeVINT [word_of_int (8 OR (js_trunc_quot v 4294967296 AND 7)),
      word_of_int (v div 16777216), word_of_int (v div 65536),
      word_of_int (v div 256), word_of_int v] = Some (v, 5)"
proof -
  have x: "0 \<le> v div 4294967296" "v div 4294967296 < 8" using assms by simp_all
  then have q: "js_trunc_quot v 4294967296 AND 7 = v div 4294967296"
    using assms by (simp add: trunc_quot_nonneg and_7)
  have "uint (word_of_int (8 OR (v div 4294967296)) :: 8 word) = 2 ^ (8 - 5) + v div 4294967296"
    using lead_byte [of "v div 4294967296" 3] x by simp
  from decode_lead [OF this, of "[word_of_int (v div 16777216), word_of_int (v div 65536),
      word_of_int (v div 256), word_of_int v]"] x
  have "decodeVINT [word_of_int (8 OR (v div 4294967296)),
      word_of_int (v div 16777216), word_of_int (v div 65536),
      word_of_int (v div 256), word_of_int v]
      = Some (be_value (v div 4294967296) [word_of_int (v div 16777216), word_of_int (v div 65536),
          word_of_int (v div 256), word_of_int v], 5)" by simp
  also have "be_value (v div 4294967296) [word_of_int (v div 16777216), word_of_int (v div 65536),
          word_of_int (v div 256), word_of_int v] = v"
    unfolding be_value_4 by simp
  finally show ?thesis unfolding q .
qed

lemma vint_bytes_1:
  "writeEBMLVarIntWidth s v 1 = Inr (writeBytes s [word_of_int (128 OR v)])"
  by (simp add: writeEBMLVarIntWidth_def writeU8_def writeByte_def toUint8_js_or)

lemma vint_bytes_2:
  "writeEBMLVarIntWidth s v 2 =
     Inr (writeBytes s [word_of_int (64 OR (v div 256)), word_of_int v])"
  using toUint8_or_sar [of 8 64 v]
  by (simp add: writeEBMLVarIntWidth_def writeU8_def writeByte_def) (simp add: toUint8_def)

lemma vint_bytes_3:
  "writeEBMLVarIntWidth s v 3 =
     Inr (writeBytes s [word_of_int (32 OR (v div 65536)), word_of_int (v div 256), word_of_int v])"
  using toUint8_or_sar [of 16 32 v] toUint8_js_sar [of 8 v]
  by (simp add: writeEBMLVarIntWidth_def writeU8_def writeByte_def) (simp add: toUint8_def)

lemma vint_bytes_4:
  "writeEBMLVarIntWidth s v 4 =
     Inr (writeBytes s [word_of_int (16 OR (v div 16777216)), word_of_int (v div 65536),
       word_of_int (v div 256), word_of_int v])"
  using toUint8_or_sar [of 24 16 v] toUint8_js_sar [of 8 v] toUint8_js_sar [of 16 v]
  by (simp add: writeEBMLVarIntWidth_def writeU8_def writeByte_def) (simp add: toUint8_def)

lemma vint_bytes_5:
  "writeEBMLVarIntWidth s v 5 =
     Inr (writeBytes s [word_of_int (8 OR (js_trunc_quot v 4294967296 AND 7)),
       word_of_int (v div 16777216), word_of_int (v div 65536),
       word_of_int (v div 256), word_of_int v])"
  using toUint8_or_and [of 8 "js_trunc_quot v 4294967296" 7]
    toUint8_js_sar [of 8 v] toUint8_js_sar [of 16 v] toUint8_js_sar [of 24 v]
  by (simp add: writeEBMLVarIntWidth_def writeU8_def writeByte_def) (simp add: toUint8_def)

lemma usable_max_values: "usable_max 1 = 126" "usable_max 2 = 16382" "usable_max 3 = 2097150"
    "usable_max 4 = 268435454" "usable_max 5 = 34359738366"
    by (simp_all add: usable_max_def)

lemma usable_max_mono: "w' \<le> w \<Longrightarrow> usable_max w' \<le> usable_max w"
  by (simp add: usable_max_def power_increasing)

lemma usable_max_below: "w' < w \<Longrightarrow> usable_max (w - 1) < v \<Longrightarrow> usable_max w' < v"
  using usable_max_mono [of w' "w - 1"] by simp

section \<open>The byte writer: variable-length integers\<close>

text \<open>
  C6. \<^verbatim>\<open>measureEBMLVarInt(v)\<close> returns the smallest width \<open>w\<close> of 1 to 5 whose usable
  maximum \<open>2 ^ (7 * w) - 2\<close> is at least \<open>v\<close>; it throws (``EBML VINT size not
  supported'') for every \<open>v\<close> above the usable maximum of width 5, so for every \<open>v\<close>
  above 34359738367 as well; \<^verbatim>\<open>writeEBMLVarIntWidth\<close> throws (``Bad EBML VINT size'') for
  every width other than 1 to 5. The sources throw a plain \<^verbatim>\<open>Error\<close>; the error classes
  of the specification are not types of the program.
\<close>

theorem measureEBMLVarInt_smallest_width:
  "(v \<le> usable_max 5 \<longrightarrow>
      (\<exists>w. measureEBMLVarInt v = Inr w \<and> 1 \<le> w \<and> w \<le> 5 \<and> v \<le> usable_max w \<and>
           (\<forall>w'. 1 \<le> w' \<and> w' < w \<longrightarrow> usable_max w' < v))) \<and>
   (usable_max 5 < v \<longrightarrow> measureEBMLVarInt v = Inl (EBML_VINT_size_not_supported v)) \<and>
   (\<not> (1 \<le> width \<and> width \<le> 5) \<longrightarrow>
      writeEBMLVarIntWidth s i width = Inl (Bad_EBML_VINT_size width))"
proof (intro conjI impI)
  assume "v \<le> usable_max 5"
  then have v: "v \<le> 34359738366" by (simp add: usable_max_values)
  consider "v < 127" | "127 \<le> v" "v < 16383" | "16383 \<le> v" "v < 2097151"
    | "2097151 \<le> v" "v < 268435455" | "268435455 \<le> v"
    by linarith
  then show "\<exists>w. measureEBMLVarInt v = Inr w \<and> 1 \<le> w \<and> w \<le> 5 \<and> v \<le> usable_max w \<and>
         (\<forall>w'. 1 \<le> w' \<and> w' < w \<longrightarrow> usable_max w' < v)"
  proof cases
    case 1
    then show ?thesis by (auto simp: measureEBMLVarInt_def usable_max_values)
  next
    case 2
    then have "measureEBMLVarInt v = Inr 2" by (simp add: measureEBMLVarInt_def)
    moreover have "\<forall>w'. 1 \<le> w' \<and> w' < 2 \<longrightarrow> usable_max w' < v"
      using 2 usable_max_below [of _ 2 v] by (simp add: usable_max_values)
    ultimately show ?thesis using 2 by (simp add: usable_max_values)
  next
    case 3
    then have "measureEBMLVarInt v = Inr 3" by (simp add: measureEBMLVarInt_def)
    moreover have "\<forall>w'. 1 \<le> w' \<and> w' < 3 \<longrightarrow> usable_max w' < v"
      using 3 usable_max_below [of _ 3 v] by (simp add: usable_max_values)
    ultimately show ?thesis using 3 by (simp add: usable_max_values)
  next
    case 4
    then have "measureEBMLVarInt v = Inr 4" by (simp add: measureEBMLVarInt_def)
    moreover have "\<forall>w'. 1 \<le> w' \<and> w' < 4 \<longrightarrow> usable_max w' < v"
      using 4 usable_max_below [of _ 4 v] by (simp add: usable_max_values)
    ultimately show ?thesis using 4 by (simp add: usable_max_values)
  next
    case 5
    then have "measureEBMLVarInt v = Inr 5" using v by (simp add: measureEBMLVarInt_def)
    moreover have "\<forall>w'. 1 \<le> w' \<and> w' < 5 \<longrightarrow> usable_max w' < v"
      using 5 usable_max_below [of _ 5 v] by (simp add: usable_max_values)
    ultimately show ?thesis using 5 v by (simp add: usable_max_values)
  qed
next
  assume "usable_max 5 < v"
  then show "measureEBMLVarInt v = Inl (EBML_VINT_size_not_supported v)"
    by (simp add: usable_max_values measureEBMLVarInt_def)
next
  assume "\<not> (1 \<le> width \<and> width \<le> 5)"
  then show "writeEBMLVarIntWidth s i width = Inl (Bad_EBML_VINT_size width)"
    by (auto simp: writeEBMLVarIntWidth_def)
qed

theorem measureEBMLVarInt_smallest_width_witness:
  "(127::int) \<le> usable_max 5 \<and> measureEBMLVarInt 127 = Inr 2 \<and> usable_max 1 < 127 \<and>
   usable_max 5 < 34359738367 \<and>
   measureEBMLVarInt 34359738367 = Inl (EBML_VINT_size_not_supported 34359738367) \<and>
   \<not> (1 \<le> (6::int) \<and> (6::int) \<le> 5) \<and>
   writeEBMLVarIntWidth (new_ArrayBufferDataStream 8) 1 6 = Inl (Bad_EBML_VINT_size 6)"
  using measureEBMLVarInt_smallest_width [of 127 6 "new_ArrayBufferDataStream 8" 1]
    measureEBMLVarInt_smallest_width [of 34359738367 6 "new_ArrayBufferDataStream 8" 1]
  by (simp add: usable_max_values measureEBMLVarInt_def)


text \<open>
  C1. Round trip: for every integer \<open>v\<close> from 0 to \<open>2 ^ 35 - 2\<close>,
  \<^verbatim>\<open>measureEBMLVarInt(v)\<close> returns a width \<open>w\<close>, \<^verbatim>\<open>writeEBMLVarIntWidth(v, w)\<close> returns
  and advances the cursor by \<open>w\<close>, and when these \<open>w\<close> bytes lie within the buffer, the
  reference decoder reads them back as the value \<open>v\<close> with width \<open>w\<close>.
\<close>

theorem ebml_varint_round_trip:
  assumes "0 \<le> v" "v \<le> 2 ^ 35 - 2"
  shows "\<exists>w s'. measureEBMLVarInt v = Inr w \<and> writeEBMLVarIntWidth s v w = Inr s' \<and>
           pos s' = pos s + nat w \<and>
           (pos s + nat w \<le> length (data s) \<longrightarrow>
              decodeVINT (take (nat w) (drop (pos s) (data s'))) = Some (v, nat w))"
proof -
  from assms(2) have v: "v \<le> 34359738366" by simp
  consider "v < 127" | "127 \<le> v" "v < 16383" | "16383 \<le> v" "v < 2097151"
    | "2097151 \<le> v" "v < 268435455" | "268435455 \<le> v"
    by linarith
  then show ?thesis
  proof cases
    case 1
    then have "measureEBMLVarInt v = Inr 1" by (simp add: measureEBMLVarInt_def)
    moreover have "pos s + 1 \<le> length (data s) \<Longrightarrow>
        take 1 (drop (pos s) (data (writeBytes s [word_of_int (128 OR v)]))) = [word_of_int (128 OR v)]"
      by (rule written_writeBytes) simp_all
    ultimately show ?thesis
      using decode_1 [of v] assms(1) 1 by (simp add: vint_bytes_1 del: writeBytes.simps)
  next
    case 2
    let ?bs = "[word_of_int (64 OR (v div 256)), word_of_int v] :: 8 word list"
    from 2 have "measureEBMLVarInt v = Inr 2" by (simp add: measureEBMLVarInt_def)
    moreover have "pos s + 2 \<le> length (data s) \<Longrightarrow>
        take 2 (drop (pos s) (data (writeBytes s ?bs))) = ?bs"
      by (rule written_writeBytes) simp_all
    ultimately show ?thesis
      using decode_2 [of v] assms(1) 2 by (simp add: vint_bytes_2 del: writeBytes.simps)
  next
    case 3
    let ?bs = "[word_of_int (32 OR (v div 65536)), word_of_int (v div 256), word_of_int v] :: 8 word list"
    from 3 have "measureEBMLVarInt v = Inr 3" by (simp add: measureEBMLVarInt_def)
    moreover have "pos s + 3 \<le> length (data s) \<Longrightarrow>
        take 3 (drop (pos s) (data (writeBytes s ?bs))) = ?bs"
      by (rule written_writeBytes) simp_all
    ultimately show ?thesis
      using decode_3 [of v] assms(1) 3 by (simp add: vint_bytes_3 del: writeBytes.simps)
  next
    case 4
    let ?bs = "[word_of_int (16 OR (v div 16777216)), word_of_int (v div 65536),
       word_of_int (v div 256), word_of_int v] :: 8 word list"
    from 4 have "measureEBMLVarInt v = Inr 4" by (simp add: measureEBMLVarInt_def)
    moreover have "pos s + 4 \<le> length (data s) \<Longrightarrow>
        take 4 (drop (pos s) (data (writeBytes s ?bs))) = ?bs"
      by (rule written_writeBytes) simp_all
    ultimately show ?thesis
      using decode_4 [of v] assms(1) 4 by (simp add: vint_bytes_4 del: writeBytes.simps)
  next
    case 5
    let ?bs = "[word_of_int (8 OR (js_trunc_quot v 4294967296 AND 7)),
       word_of_int (v div 16777216), word_of_int (v div 65536),
       word_of_int (v div 256), word_of_int v] :: 8 word list"
    from 5 v have "measureEBMLVarInt v = Inr 5" by (simp add: measureEBMLVarInt_def)
    moreover have "pos s + 5 \<le> length (data s) \<Longrightarrow>
        take 5 (drop (pos s) (data (writeBytes s ?bs))) = ?bs"
      by (rule written_writeBytes) simp_all
    ultimately show ?thesis
      using decode_5 [of v] assms(1) v by (simp add: vint_bytes_5 del: writeBytes.simps)
  qed
qed

theorem ebml_varint_round_trip_witness:
  "(0::int) \<le> 268435454 \<and> (268435454::int) \<le> 2 ^ 35 - 2 \<and>
   measureEBMLVarInt 268435454 = Inr 4 \<and>
   (\<exists>s'. writeEBMLVarIntWidth (new_ArrayBufferDataStream 4) 268435454 4 = Inr s' \<and>
      pos s' = 4 \<and> decodeVINT (take 4 (drop 0 (data s'))) = Some (268435454, 4))"
  using ebml_varint_round_trip [of 268435454 "new_ArrayBufferDataStream 4"]
  by (auto simp: measureEBMLVarInt_def new_ArrayBufferDataStream_def)

lemma data_new [simp]: "data (new_ArrayBufferDataStream n) = replicate n 0"
  and pos_new [simp]: "pos (new_ArrayBufferDataStream n) = 0"
  by (simp_all add: new_ArrayBufferDataStream_def)

text \<open>
  C9. \<^verbatim>\<open>getAsDataArray()\<close> returns the bytes of the buffer from offset 0 up to the cursor
  when the cursor is at or within the capacity, and throws (``pos lies beyond end of
  buffer'') for every cursor beyond the capacity. In particular, after \<^verbatim>\<open>writeBytes(bs)\<close> on
  a fresh stream that has room for them it returns exactly \<open>bs\<close>. The exception is a plain
  \<^verbatim>\<open>Error\<close>.
\<close>

theorem getAsDataArray_written_prefix:
  "(pos s \<le> length (data s) \<longrightarrow> getAsDataArray s = Inr (take (pos s) (data s))) \<and>
   (length (data s) < pos s \<longrightarrow> getAsDataArray s = Inl Pos_beyond_end_of_buffer) \<and>
   (length bs \<le> n \<longrightarrow> getAsDataArray (writeBytes (new_ArrayBufferDataStream n) bs) = Inr bs)"
proof (intro conjI impI)
  assume "length bs \<le> n"
  then have "data (writeBytes (new_ArrayBufferDataStream n) bs) = bs @ replicate (n - length bs) 0"
    by (simp add: data_writeBytes)
  then show "getAsDataArray (writeBytes (new_ArrayBufferDataStream n) bs) = Inr bs"
    using \<open>length bs \<le> n\<close> by (simp add: getAsDataArray_def)
qed (auto simp: getAsDataArray_def)

theorem getAsDataArray_written_prefix_witness:
  "getAsDataArray \<lparr>data = [1, 2, 3, 4], pos = 2\<rparr> = Inr [1, 2] \<and>
   getAsDataArray \<lparr>data = [1, 2, 3, 4], pos = 4\<rparr> = Inr [1, 2, 3, 4] \<and>
   getAsDataArray \<lparr>data = [1, 2, 3, 4], pos = 5\<rparr> = Inl Pos_beyond_end_of_buffer \<and>
   getAsDataArray (writeBytes (new_ArrayBufferDataStream 3) [7, 8]) = Inr [7, 8]"
  using getAsDataArray_written_prefix [of "\<lparr>data = [1, 2, 3, 4], pos = 2\<rparr>" "[7, 8]" 3]
    getAsDataArray_written_prefix [of "\<lparr>data = [1, 2, 3, 4], pos = 4\<rparr>" "[7, 8]" 3]
    getAsDataArray_written_prefix [of "\<lparr>data = [1, 2, 3, 4], pos = 5\<rparr>" "[7, 8]" 3]
  by simp

lemma simple_block_header:
  assumes "0 < trackNumber fr" "trackNumber fr < 127"
  shows "createSimpleBlockForframe fr =
    Inr (leaf 0xa3 (Children
      [RawBytes [word_of_int (128 + trackNumber fr), word_of_int (timecode fr div 256),
                 word_of_int (timecode fr), if frame_type fr = Key then 128 else 0],
       RawBytes (frame fr)]))"
proof -
  have m: "measureEBMLVarInt (trackNumber fr) = Inr 1"
    using assms by (simp add: measureEBMLVarInt_def)
  have o: "128 OR trackNumber fr = 128 + trackNumber fr"
    using or_pow_int [of "trackNumber fr" 7] assms by simp
  have f: "toUint8 (js_shl (if frame_type fr = Key then 1 else 0) 7) =
      (if frame_type fr = Key then 128 else 0)"
    by (simp add: toUint8_def js_shl_def toInt32_def)
  show ?thesis
    using assms toUint8_js_sar [of 8 "timecode fr"]
    by (simp add: createSimpleBlockForframe_def writeEBMLVarInt_def m vint_bytes_1 o
        writeU16BE_def writeByte_def f getAsDataArray_def put_def store_def)
      (simp add: toUint8_def)
qed

text \<open>
  C7. \<^verbatim>\<open>createSimpleBlockForframe\<close> throws if and only if the track number of the frame
  lies outside 1 to 126, and the exception is then ``TrackNumber must be > 0 and < 127''.
  For a track number from 1 to 126 it returns a SimpleBlock element (id \<^verbatim>\<open>0xa3\<close>) whose
  data are a header of 4 bytes, the first being the track number as a 1-byte VINT, and the
  bytes of the frame. Track numbers are integers.
\<close>

theorem createSimpleBlockForframe_track_validation:
  "((\<exists>e. createSimpleBlockForframe fr = Inl e) \<longleftrightarrow> \<not> (1 \<le> trackNumber fr \<and> trackNumber fr \<le> 126)) \<and>
   (\<not> (1 \<le> trackNumber fr \<and> trackNumber fr \<le> 126) \<longrightarrow>
      createSimpleBlockForframe fr = Inl TrackNumber_out_of_range) \<and>
   (1 \<le> trackNumber fr \<and> trackNumber fr \<le> 126 \<longrightarrow>
      (\<exists>header. createSimpleBlockForframe fr =
          Inr (Element 0xa3 None (Children [RawBytes header, RawBytes (frame fr)]) None None) \<and>
        length header = 4 \<and> uint (hd header) = 128 + trackNumber fr))"
proof -
  have bad: "createSimpleBlockForframe fr = Inl TrackNumber_out_of_range"
    if "\<not> (1 \<le> trackNumber fr \<and> trackNumber fr \<le> 126)"
    using that by (auto simp: createSimpleBlockForframe_def)
  have good: "\<exists>header. createSimpleBlockForframe fr =
          Inr (Element 0xa3 None (Children [RawBytes header, RawBytes (frame fr)]) None None) \<and>
        length header = 4 \<and> uint (hd header) = 128 + trackNumber fr"
    if "1 \<le> trackNumber fr \<and> trackNumber fr \<le> 126"
  proof -
    have "uint (word_of_int (128 + trackNumber fr) :: 8 word) = 128 + trackNumber fr"
      using that by (intro uint8_small) simp_all
    then show ?thesis
      using that simple_block_header [of fr] by (simp add: leaf_def)
  qed
  from bad good show ?thesis by auto
qed

theorem createSimpleBlockForframe_track_validation_witness:
  "createSimpleBlockForframe
     \<lparr>frame = [9], intime = 0, frame_type = Key, trackNumber = 0, timecode = 0\<rparr>
     = Inl TrackNumber_out_of_range \<and>
   createSimpleBlockForframe
     \<lparr>frame = [9], intime = 0, frame_type = Key, trackNumber = 127, timecode = 0\<rparr>
     = Inl TrackNumber_out_of_range \<and>
   createSimpleBlockForframe
     \<lparr>frame = [9], intime = 0, frame_type = Key, trackNumber = 1, timecode = 0\<rparr>
     = Inr (Element 0xa3 None (Children [RawBytes [129, 0, 0, 128], RawBytes [9]]) None None) \<and>
   createSimpleBlockForframe
     \<lparr>frame = [9], intime = 0, frame_type = Key, trackNumber = 126, timecode = 0\<rparr>
     = Inr (Element 0xa3 None (Children [RawBytes [254, 0, 0, 128], RawBytes [9]]) None None)"
  using createSimpleBlockForframe_track_validation
      [of "\<lparr>frame = [9], intime = 0, frame_type = Key, trackNumber = 0, timecode = 0\<rparr>"]
    createSimpleBlockForframe_track_validation
      [of "\<lparr>frame = [9], intime = 0, frame_type = Key, trackNumber = 127, timecode = 0\<rparr>"]
    createSimpleBlockForframe_track_validation
      [of "\<lparr>frame = [9], intime = 0, frame_type = Key, trackNumber = 1, timecode = 0\<rparr>"]
    createSimpleBlockForframe_track_validation
      [of "\<lparr>frame = [9], intime = 0, frame_type = Key, trackNumber = 126, timecode = 0\<rparr>"]
  by (simp add: simple_block_header leaf_def)

section \<open>The export loop: keyframes\<close>

declare encode_loop.simps [simp del]

lemma encode_loop_nth:
  "k < length (fst (encode_loop rf opts T fl i)) \<Longrightarrow>
   ec_keyFrame (fst (encode_loop rf opts T fl i) ! k) = ((i + k) mod KEYFRAME_FREQUENCY = 0) \<and>
   ec_timestamp (fst (encode_loop rf opts T fl i) ! k) = opt_start opts + real (i + k) * fl \<and>
   ec_duration (fst (encode_loop rf opts T fl i) ! k) = fl"
proof (induction rf opts T fl i arbitrary: k rule: encode_loop.induct)
  case (1 rf opts T fl i)
  show ?case
  proof (cases "real i < T")
    case False
    with "1.prems" show ?thesis by (simp add: encode_loop.simps [of rf opts T fl i])
  next
    case True
    show ?thesis
    proof (cases "rf (opt_start opts + real i * fl) (opt_width opts) (opt_height opts)")
      case (Inl e)
      with True "1.prems" show ?thesis by (simp add: encode_loop.simps [of rf opts T fl i])
    next
      case (Inr c)
      show ?thesis
      proof (cases k)
        case 0
        with True Inr show ?thesis
          by (simp add: encode_loop.simps [of rf opts T fl i] Let_def)
      next
        case (Suc k')
        with True Inr "1.prems" have "k' < length (fst (encode_loop rf opts T fl (i + 1)))"
          by (simp add: encode_loop.simps [of rf opts T fl i] Let_def)
        from "1.IH" [OF True refl Inr refl refl this] True Inr Suc show ?thesis
          by (simp add: encode_loop.simps [of rf opts T fl i] Let_def)
      qed
    qed
  qed
qed

lemma encode_loop_total:
  "(\<forall>t w h. \<exists>c. rf t w h = Inr c) \<Longrightarrow>
   length (fst (encode_loop rf opts T fl i)) = nat \<lceil>T\<rceil> - i \<and>
   snd (encode_loop rf opts T fl i) = None"
proof (induction rf opts T fl i rule: encode_loop.induct)
  case (1 rf opts T fl i)
  show ?case
  proof (cases "real i < T")
    case False
    then have "nat \<lceil>T\<rceil> \<le> i" by linarith
    with False show ?thesis by (simp add: encode_loop.simps [of rf opts T fl i])
  next
    case True
    then have lt: "i < nat \<lceil>T\<rceil>" by linarith
    from "1.prems" obtain c where
      c: "rf (opt_start opts + real i * fl) (opt_width opts) (opt_height opts) = Inr c"
      by blast
    from "1.IH" [OF True refl c refl refl "1.prems"] True c lt show ?thesis
      by (simp add: encode_loop.simps [of rf opts T fl i] Let_def)
  qed
qed




section \<open>Clips: rendering\<close>

lemma array_get_nat: "k < length xs \<Longrightarrow> array_get xs (Fin (real k)) = Some (xs ! k)"
  by (simp add: array_get_def)

lemma clamp_finite:
  "clamp (Fin x) (Fin lo) (Fin hi) = Fin (min (max x lo) hi)"
  by (simp add: clamp_def)

lemma clamp_index:
  assumes "0 < n"
  shows "min (max (real_of_int z) 0) (real n - 1) = real (nat (min (max z 0) (int n - 1)))"
    and "nat (min (max z 0) (int n - 1)) < n"
  using assms by (auto simp: min_def max_def)

lemma simpleRender_nonempty:
  "resources \<noteq> [] \<Longrightarrow>
   ImageSequenceClip_simpleRender resources m canvas time width height =
     (case array_get resources
             (clamp (Math_floor (js_divide (Fin time) m)) (Fin 0) (Fin (real (length resources) - 1))) of
        None \<Rightarrow> Inl TypeError_undefined
      | Some resource \<Rightarrow> Inr (drawImage canvas (asImage resource) 0 0 width height))"
  by (cases resources) (simp_all add: ImageSequenceClip_simpleRender_def Let_def del: js_divide.simps)





lemma transform_as_translate_scale:
  "transform canvas w 0 0 h l t = scale_canvas (translate_canvas canvas l t) w h"
  by (simp add: transform_def scale_canvas_def translate_canvas_def matrix_multiply_def)

text \<open>
  C5, as the code has it. For a clip with a drawing routine, \<^verbatim>\<open>render\<close> calls the routine
  with the clip-relative time \<open>time - renderStart\<close> on the surface whose transform is the
  prior one followed by \<^verbatim>\<open>translate(posLeft, posTop)\<close>, then \<^verbatim>\<open>scale(posWidth, posHeight)\<close>,
  then \<^verbatim>\<open>rotate(rotation)\<close> (the matrix of the single \<^verbatim>\<open>transform\<close> call is a translation
  followed by a scaling), and is otherwise the surface it was given. When the routine
  returns, the result is the surface the routine left, with the transform set back to the
  prior one; when it throws, \<^verbatim>\<open>render\<close> throws the same exception.
\<close>

theorem render_transform_discipline:
  assumes "simpleRender clip = Some sr"
  shows "render clip canvas time width height =
    (case sr (rotate_canvas
                (scale_canvas
                   (translate_canvas canvas (posLeft (properties clip)) (posTop (properties clip)))
                   (posWidth (properties clip)) (posHeight (properties clip)))
                (rotation (properties clip)))
             (time - renderStart (properties clip)) width height of
       Inl e \<Rightarrow> Inl e
     | Inr canvas3 \<Rightarrow> Inr (canvas3\<lparr>currentTransform := currentTransform canvas\<rparr>))"
  using assms
  by (simp add: render_def Let_def transform_as_translate_scale getTransform_def setTransform_def
      split: sum.splits)

text \<open>
  The order scale, translate, rotate is not what the code applies. With \<open>posWidth = 2\<close>,
  \<open>posLeft = 1\<close> and a rotation of \<open>\<pi>\<close> on the identity transform, the image is drawn
  under the matrix with translation 1; \<^verbatim>\<open>scale\<close>, \<^verbatim>\<open>translate\<close>, \<^verbatim>\<open>rotate\<close> called in this
  order give translation 2, and scaling, translating and rotating a point in this order
  (the product rotation, translation, scaling) gives translation \<open>-1\<close>.
\<close>

theorem render_transform_order_counterexample:
  "render
     (ImageClip \<lparr>renderStart = 1000, renderLength = 5000, posTop = 0, posLeft = 1, posWidth = 2,
                 posHeight = 1, rotation = pi\<rparr> (ImageResource 7))
     \<lparr>currentTransform = identity_matrix, drawn = []\<rparr> 3000 1600 900
   = Inr \<lparr>currentTransform = identity_matrix,
          drawn = [\<lparr>dc_image = 7, dc_dx = 0, dc_dy = 0, dc_dWidth = 1600, dc_dHeight = 900,
                    dc_transform = \<lparr>m_a = - 2, m_b = 0, m_c = 0, m_d = - 1, m_e = 1, m_f = 0\<rparr>\<rparr>]\<rparr> \<and>
   currentTransform
     (rotate_canvas
        (translate_canvas (scale_canvas \<lparr>currentTransform = identity_matrix, drawn = []\<rparr> 2 1) 1 0)
        pi)
   = \<lparr>m_a = - 2, m_b = 0, m_c = 0, m_d = - 1, m_e = 2, m_f = 0\<rparr> \<and>
   matrix_multiply \<lparr>m_a = cos pi, m_b = sin pi, m_c = - sin pi, m_d = cos pi, m_e = 0, m_f = 0\<rparr>
     (matrix_multiply \<lparr>m_a = 1, m_b = 0, m_c = 0, m_d = 1, m_e = 1, m_f = 0\<rparr>
        \<lparr>m_a = 2, m_b = 0, m_c = 0, m_d = 1, m_e = 0, m_f = 0\<rparr>)
   = \<lparr>m_a = - 2, m_b = 0, m_c = 0, m_d = - 1, m_e = - 1, m_f = 0\<rparr>"
  by (simp add: render_def Let_def getTransform_def setTransform_def transform_def
      rotate_canvas_def scale_canvas_def translate_canvas_def ImageClip_simpleRender_def
      drawImage_def matrix_multiply_def identity_matrix_def)

theorem render_transform_discipline_witness:
  "simpleRender (ImageClip \<lparr>renderStart = 1000, renderLength = 5000, posTop = 0, posLeft = 1,
       posWidth = 2, posHeight = 1, rotation = 0\<rparr> (ImageResource 7))
     = Some (ImageClip_simpleRender (ImageResource 7)) \<and>
   render
     (ImageClip \<lparr>renderStart = 1000, renderLength = 5000, posTop = 0, posLeft = 1, posWidth = 2,
                 posHeight = 1, rotation = 0\<rparr> (ImageResource 7))
     \<lparr>currentTransform = identity_matrix, drawn = []\<rparr> 3000 1600 900
   = Inr \<lparr>currentTransform = identity_matrix,
          drawn = [\<lparr>dc_image = 7, dc_dx = 0, dc_dy = 0, dc_dWidth = 1600, dc_dHeight = 900,
                    dc_transform = \<lparr>m_a = 2, m_b = 0, m_c = 0, m_d = 1, m_e = 1, m_f = 0\<rparr>\<rparr>]\<rparr>"
  using render_transform_discipline
    [of "ImageClip \<lparr>renderStart = 1000, renderLength = 5000, posTop = 0, posLeft = 1,
       posWidth = 2, posHeight = 1, rotation = 0\<rparr> (ImageResource 7)"
      "ImageClip_simpleRender (ImageResource 7)"
      "\<lparr>currentTransform = identity_matrix, drawn = []\<rparr>" 3000 1600 900]
  by (simp add: rotate_canvas_def scale_canvas_def translate_canvas_def ImageClip_simpleRender_def
      drawImage_def matrix_multiply_def identity_matrix_def)

section \<open>The element tree writer: positions and size patching\<close>

lemma keeps_refl [simp]: "keeps q b b"
  by (simp add: keeps_def)

lemma keeps_trans: "keeps q b b' \<Longrightarrow> keeps q b' b'' \<Longrightarrow> keeps q b b''"
  by (simp add: keeps_def)

lemma keeps_seek [simp]: "keeps q b (seek b' p) = keeps q b b'" "keeps q (seek b p) b' = keeps q b b'"
  by (simp_all add: keeps_def seek_def)

lemma pos_seek [simp]: "pos (seek b p) = p"
  by (simp add: seek_def)

lemma data_seek [simp]: "data (seek b p) = data b"
  by (simp add: seek_def)

lemma keeps_put: "q \<le> pos b \<Longrightarrow> keeps q b (put b x)"
  by (simp add: keeps_def put_def store_def)

lemma keeps_writeBytes: "q \<le> pos b \<Longrightarrow> keeps q b (writeBytes b bs)"
proof (induction bs arbitrary: b)
  case Nil
  then show ?case by simp
next
  case (Cons x bs)
  have "keeps q (put b x) (writeBytes (put b x) bs)"
    using Cons.prems by (intro Cons.IH) simp
  with keeps_put [OF Cons.prems, of x] show ?case
    by (simp add: keeps_trans)
qed

lemma writeString_writeBytes: "writeString b s = writeBytes b (map (\<lambda>c. toUint8 (of_char c)) s)"
  by (induction s arbitrary: b) simp_all

lemma keeps_writeString: "q \<le> pos b \<Longrightarrow> keeps q b (writeString b s)"
  by (simp add: writeString_writeBytes keeps_writeBytes)

lemma writeU8_writeBytes: "writeU8 b x = writeBytes b [toUint8 x]"
  by (simp add: writeU8_def writeByte_def)

lemma writeBytes_append: "writeBytes (writeBytes b xs) ys = writeBytes b (xs @ ys)"
  by (induction xs arbitrary: b) simp_all

lemma writeEBMLVarIntWidth_bytes:
  "writeEBMLVarIntWidth b i w = Inr b' \<Longrightarrow> \<exists>bs. b' = writeBytes b bs \<and> int (length bs) = w"
  by (auto simp: writeEBMLVarIntWidth_def writeU8_writeBytes writeBytes_append
      simp del: writeBytes.simps split: if_splits)

lemma writeEBMLVarInt_bytes:
  "writeEBMLVarInt b i = Inr b' \<Longrightarrow> \<exists>bs. b' = writeBytes b bs \<and> measureEBMLVarInt i = Inr (int (length bs))"
  by (auto simp: writeEBMLVarInt_def split: sum.splits dest: writeEBMLVarIntWidth_bytes)

lemma measureUnsignedInt_range: "1 \<le> measureUnsignedInt v" "measureUnsignedInt v \<le> 5"
  by (simp_all add: measureUnsignedInt_def)

lemma writeUnsignedIntBE_bytes:
  "writeUnsignedIntBE b u w = Inr b' \<Longrightarrow>
   \<exists>bs. b' = writeBytes b bs \<and>
     int (length bs) = (case w of None \<Rightarrow> measureUnsignedInt u | Some w' \<Rightarrow> w')"
  by (auto simp: writeUnsignedIntBE_def Let_def uint_from5_def uint_from4_def uint_from3_def
      uint_from2_def uint_from1_def writeU8_writeBytes writeBytes_append
      simp del: writeBytes.simps split: if_splits option.splits)

lemma writeUnsignedIntBE_id:
  "\<exists>bs. writeUnsignedIntBE b u None = Inr (writeBytes b bs) \<and> int (length bs) = measureUnsignedInt u"
  using measureUnsignedInt_range [of u]
  by (auto simp: writeUnsignedIntBE_def Let_def uint_from5_def uint_from4_def uint_from3_def
      uint_from2_def uint_from1_def writeU8_writeBytes writeBytes_append
      simp del: writeBytes.simps)


lemma keeps_writeEBMLVarIntWidth:
  "writeEBMLVarIntWidth b i w = Inr b' \<Longrightarrow> q \<le> pos b \<Longrightarrow> pos b \<le> pos b' \<and> keeps q b b'"
  by (auto dest!: writeEBMLVarIntWidth_bytes simp: keeps_writeBytes)

lemma keeps_writeEBMLVarInt:
  "writeEBMLVarInt b i = Inr b' \<Longrightarrow> q \<le> pos b \<Longrightarrow> pos b \<le> pos b' \<and> keeps q b b'"
  by (auto dest!: writeEBMLVarInt_bytes simp: keeps_writeBytes)

lemma keeps_writeUnsignedIntBE:
  "writeUnsignedIntBE b u w = Inr b' \<Longrightarrow> q \<le> pos b \<Longrightarrow> pos b \<le> pos b' \<and> keeps q b b'"
  by (auto dest!: writeUnsignedIntBE_bytes simp: keeps_writeBytes)

lemma keeps_writeByte: "q \<le> pos b \<Longrightarrow> keeps q b (writeByte b x)"
  by (simp add: writeByte_def keeps_put)

lemma pos_writeByte [simp]: "pos (writeByte b x) = pos b + 1"
  by (simp add: writeByte_def)

lemma keeps_writeDoubleBE: "q \<le> pos b \<Longrightarrow> keeps q b (writeDoubleBE b d)"
  by (simp add: writeDoubleBE_def keeps_writeBytes del: writeBytes.simps)

lemma keeps_writeFloatBE: "q \<le> pos b \<Longrightarrow> keeps q b (writeFloatBE b d)"
  by (simp add: writeFloatBE_def keeps_writeBytes del: writeBytes.simps)

lemma pos_writeDoubleBE [simp]: "pos (writeDoubleBE b d) = pos b + 8"
  by (simp add: writeDoubleBE_def del: writeBytes.simps)

lemma pos_writeFloatBE [simp]: "pos (writeFloatBE b d) = pos b + 4"
  by (simp add: writeFloatBE_def del: writeBytes.simps)

lemma frame_chain:
  "pos b \<le> pos b1 \<and> keeps q b b1 \<Longrightarrow> (q \<le> pos b1 \<Longrightarrow> pos b1 \<le> pos b2 \<and> keeps q b1 b2) \<Longrightarrow>
   q \<le> pos b \<Longrightarrow> pos b \<le> pos b2 \<and> keeps q b b2"
  by (auto intro: keeps_trans)

lemma frame_writeBytes: "q \<le> pos b \<Longrightarrow> pos b \<le> pos (writeBytes b bs) \<and> keeps q b (writeBytes b bs)"
  by (simp add: keeps_writeBytes)

lemma frame_writeString: "q \<le> pos b \<Longrightarrow> pos b \<le> pos (writeString b s) \<and> keeps q b (writeString b s)"
  by (simp add: keeps_writeString)

lemma frame_writeDoubleBE: "q \<le> pos b \<Longrightarrow> pos b \<le> pos (writeDoubleBE b d) \<and> keeps q b (writeDoubleBE b d)"
  by (simp add: keeps_writeDoubleBE)

lemma frame_writeFloatBE: "q \<le> pos b \<Longrightarrow> pos b \<le> pos (writeFloatBE b d) \<and> keeps q b (writeFloatBE b d)"
  by (simp add: keeps_writeFloatBE)

lemma writeEBML_frame:
  "writeEBML b off e = Inr (b', e') \<Longrightarrow> q \<le> pos b \<Longrightarrow> pos b \<le> pos b' \<and> keeps q b b'"
  "writeEBML_each b off es = Inr (b', es') \<Longrightarrow> q \<le> pos b \<Longrightarrow> pos b \<le> pos b' \<and> keeps q b b'"
proof (induction b off e and b off es arbitrary: b' e' q and b' es' q
    rule: writeEBML_writeEBML_each.induct)
  case (1 buffer bufferFileOffset es)
  then show ?case by (auto split: sum.splits)
next
  case (2 buffer bufferFileOffset s)
  then show ?case by (auto simp: keeps_writeString)
next
  case (3 buffer bufferFileOffset bs)
  then show ?case by (auto simp: keeps_writeBytes)
next
  case (4 buffer off eid esize edata eoff edoff)
  from "4.prems"(1) have nz: "eid \<noteq> 0"
    by (auto split: if_splits)
  from "4.prems"(1) nz obtain b1 where w1: "writeUnsignedIntBE buffer eid None = Inr b1"
    by (auto simp: Let_def split: sum.splits)
  from keeps_writeUnsignedIntBE [OF w1 "4.prems"(2)]
  have k1: "pos buffer \<le> pos b1" "keeps q buffer b1" by simp_all
  then have q1: "q \<le> pos b1" using "4.prems"(2) by simp
  show ?case
  proof (cases edata)
    case (Children kids)
    show ?thesis
    proof (cases "esize = Some (- 1)")
      case True
      from "4.prems"(1) nz w1 Children True obtain kids' where
        w2: "writeEBML_each (writeByte b1 255) off kids = Inr (b', kids')"
        by (auto simp: Let_def split: sum.splits)
      have "q \<le> pos (writeByte b1 255)" using q1 by simp
      from "4.IH"(1) [OF nz refl w1 Children True refl refl w2 this]
      have "pos (writeByte b1 255) \<le> pos b'" "keeps q (writeByte b1 255) b'" by simp_all
      with k1 keeps_writeByte [OF q1, of 255] show ?thesis
        by (auto intro: keeps_trans)
    next
      case False
      let ?b2 = "writeBytes b1 [0, 0, 0, 0]"
      from "4.prems"(1) nz w1 Children False obtain b3 kids' b4 where
        w2: "writeEBML_each ?b2 off kids = Inr (b3, kids')" and
        w3: "writeEBMLVarIntWidth (seek b3 (pos b1)) (int (pos b3) - int (pos ?b2)) 4 = Inr b4" and
        b': "b' = seek b4 (pos b3)"
        by (auto simp: Let_def simp del: writeBytes.simps split: sum.splits)
      have q2: "q \<le> pos ?b2" using q1 by simp
      from "4.IH"(2) [OF nz refl w1 Children False refl refl refl w2 q2]
      have k3: "pos ?b2 \<le> pos b3" "keeps q ?b2 b3" by simp_all
      have "q \<le> pos (seek b3 (pos b1))" using q1 by simp
      from keeps_writeEBMLVarIntWidth [OF w3 this] have k4: "keeps q b3 b4" by simp
      have "keeps q buffer b4"
        using k1(2) keeps_writeBytes [OF q1, of "[0, 0, 0, 0]"] k3(2) k4
        by (blast intro: keeps_trans)
      moreover have "pos buffer \<le> pos b3" using k1(1) k3(1) by simp
      ultimately show ?thesis by (simp add: b')
    qed
  next
    case (Str str)
    with "4.prems"(1) nz w1 obtain b2 where
      w2: "writeEBMLVarInt b1 (int (length str)) = Inr b2" and b': "b' = writeString b2 str"
      by (auto simp: Let_def split: sum.splits)
    have "pos b1 \<le> pos b' \<and> keeps q b1 b'"
      using keeps_writeEBMLVarInt [OF w2 q1] frame_writeString [of q b2 str] q1
      unfolding b' by (rule frame_chain)
    with k1 show ?thesis by (auto intro: keeps_trans)
  next
    case (Num n)
    with "4.prems"(1) nz w1 obtain b2 sz where
      w2: "writeEBMLVarInt b1 sz = Inr b2" and w3: "writeUnsignedIntBE b2 n (Some sz) = Inr b'"
      by (auto simp: Let_def split: sum.splits)
    have "pos b1 \<le> pos b' \<and> keeps q b1 b'"
      using keeps_writeEBMLVarInt [OF w2 q1] keeps_writeUnsignedIntBE [OF w3, of q] q1
      by (rule frame_chain)
    with k1 show ?thesis by (auto intro: keeps_trans)
  next
    case (EBMLFloat64 d)
    with "4.prems"(1) nz w1 obtain b2 where
      w2: "writeEBMLVarInt b1 8 = Inr b2" and b': "b' = writeDoubleBE b2 d"
      by (auto simp: Let_def split: sum.splits)
    have "pos b1 \<le> pos b' \<and> keeps q b1 b'"
      using keeps_writeEBMLVarInt [OF w2 q1] frame_writeDoubleBE [of q b2 d] q1
      unfolding b' by (rule frame_chain)
    with k1 show ?thesis by (auto intro: keeps_trans)
  next
    case (EBMLFloat32 d)
    with "4.prems"(1) nz w1 obtain b2 where
      w2: "writeEBMLVarInt b1 4 = Inr b2" and b': "b' = writeFloatBE b2 d"
      by (auto simp: Let_def split: sum.splits)
    have "pos b1 \<le> pos b' \<and> keeps q b1 b'"
      using keeps_writeEBMLVarInt [OF w2 q1] frame_writeFloatBE [of q b2 d] q1
      unfolding b' by (rule frame_chain)
    with k1 show ?thesis by (auto intro: keeps_trans)
  next
    case (Bytes bs)
    with "4.prems"(1) nz w1 obtain b2 where
      w2: "writeEBMLVarInt b1 (int (length bs)) = Inr b2" and b': "b' = writeBytes b2 bs"
      by (auto simp: Let_def split: sum.splits)
    have "pos b1 \<le> pos b' \<and> keeps q b1 b'"
      using keeps_writeEBMLVarInt [OF w2 q1] frame_writeBytes [of q b2 bs] q1
      unfolding b' by (rule frame_chain)
    with k1 show ?thesis by (auto intro: keeps_trans)
  next
    case NoData
    with "4.prems"(1) nz w1 show ?thesis by (simp add: Let_def)
  qed
next
  case (5 buffer bufferFileOffset)
  then show ?case by simp
next
  case (6 buffer bufferFileOffset e es)
  from "6.prems" obtain b1 e1 es1 where
    w1: "writeEBML buffer bufferFileOffset e = Inr (b1, e1)" and
    w2: "writeEBML_each b1 bufferFileOffset es = Inr (b', es1)"
    by (auto split: sum.splits)
  from "6.IH"(1) [OF w1 "6.prems"(2)] have s1: "pos buffer \<le> pos b1" "keeps q buffer b1" by simp_all
  then have "q \<le> pos b1" using "6.prems"(2) by simp
  from "6.IH"(2) [OF w1 refl w2 this] s1 show ?case
    by (auto intro: keeps_trans)
qed


lemma pos_placeholder: "pos (writeBytes b [0, 0, 0, 0]) = pos b + 4"
  by simp

lemma writeEBML_bounded_container:
  assumes "writeEBML buffer off (Element eid esize (Children kids) eoff edoff) = Inr (buffer', e')"
    and "esize \<noteq> Some (- 1)"
  shows "\<exists>b1 b3 kids' b4.
    writeUnsignedIntBE buffer eid None = Inr b1 \<and>
    writeEBML_each (writeBytes b1 [0, 0, 0, 0]) off kids = Inr (b3, kids') \<and>
    writeEBMLVarIntWidth (seek b3 (pos b1)) (int (pos b3) - int (pos b1 + 4)) 4 = Inr b4 \<and>
    buffer' = seek b4 (pos b3) \<and>
    e' = Element eid (Some (int (pos b3) - int (pos b1 + 4))) (Children kids')
            (Some (pos buffer + off)) (Some (pos b1 + 4 + off))"
proof -
  from assms(1) have nz: "eid \<noteq> 0"
    by (auto split: if_splits)
  from assms(1) nz obtain b1 where w1: "writeUnsignedIntBE buffer eid None = Inr b1"
    by (auto simp: Let_def split: sum.splits)
  from assms w1 nz show ?thesis
    unfolding pos_placeholder [symmetric]
    by (auto simp: Let_def simp del: writeBytes.simps pos_writeBytes split: sum.splits)
qed

lemma patch_parts:
  assumes "length xs = p" "length bs = k"
  shows "take k (drop p (xs @ bs @ ys)) = bs" "take p (xs @ bs @ ys) = xs"
    "drop (p + k) (xs @ bs @ ys) = ys"
  using assms by simp_all

lemma decode_vint4_bytes:
  assumes "0 \<le> v" "v \<le> usable_max 4"
  shows "decodeVINT [word_of_int (16 OR (v div 16777216)), word_of_int (v div 65536),
      word_of_int (v div 256), word_of_int v] = Some (v, 4)"
  using assms by (intro decode_4) (simp_all add: usable_max_values)



lemma writeEBML_bounded_eq:
  assumes "eid \<noteq> 0" "esize \<noteq> Some (- 1)"
    and "writeUnsignedIntBE buffer eid None = Inr b1"
    and "writeEBML_each (writeBytes b1 [0, 0, 0, 0]) off kids = Inr (b3, kids')"
    and "writeEBMLVarIntWidth (seek b3 (pos b1)) (int (pos b3) - int (pos b1 + 4)) 4 = Inr b4"
  shows "writeEBML buffer off (Element eid esize (Children kids) eoff edoff) =
    Inr (seek b4 (pos b3),
         Element eid (Some (int (pos b3) - int (pos b1 + 4))) (Children kids')
           (Some (pos buffer + off)) (Some (pos b1 + 4 + off)))"
  using assms unfolding pos_placeholder [symmetric]
  by (simp add: Let_def del: writeBytes.simps pos_writeBytes)


text \<open>
  An element whose children occupy \<open>2 ^ 28\<close> bytes: the width-4 encoding has 28 value bits,
  \<^verbatim>\<open>(1 << 4) | (size >> 24)\<close> is \<^verbatim>\<open>0x10\<close>, and the four bytes decode to 0. (``4 bytes
  allows an element maximum size of 256MB'', says the comment in \<^verbatim>\<open>writeEBML\<close>.)
\<close>

lemma big_zeros:
  "replicate 268435461 (0::8 word) = 0 # 0 # 0 # 0 # 0 # replicate 268435456 0"
proof -
  have "replicate (5 + 268435456) (0::8 word) = replicate 5 0 @ replicate 268435456 0"
    by (rule replicate_add)
  moreover have "replicate 5 (0::8 word) = [0, 0, 0, 0, 0]"
    by code_simp
  ultimately show ?thesis by simp
qed


section \<open>The muxer: clusters, cue points and time base\<close>

lemma element_rest:
  assumes w: "writeEBML buffer off (Element eid esize edata eoff edoff) = Inr (b', e')"
    and w1: "writeUnsignedIntBE buffer eid None = Inr b1"
    and q1: "q \<le> pos b1"
  shows "pos b1 \<le> pos b' \<and> keeps q b1 b'"
proof -
  from w have nz: "eid \<noteq> 0"
    by (auto split: if_splits)
  show ?thesis
  proof (cases edata)
    case (Children kids)
    show ?thesis
    proof (cases "esize = Some (- 1)")
      case True
      from w nz w1 Children True obtain kids' where
        w2: "writeEBML_each (writeByte b1 255) off kids = Inr (b', kids')"
        by (auto simp: Let_def split: sum.splits)
      have "q \<le> pos (writeByte b1 255)" using q1 by simp
      from writeEBML_frame(2) [OF w2 this]
      have "pos (writeByte b1 255) \<le> pos b'" "keeps q (writeByte b1 255) b'" by simp_all
      with keeps_writeByte [OF q1, of 255] show ?thesis
        by (auto intro: keeps_trans)
    next
      case False
      let ?b2 = "writeBytes b1 [0, 0, 0, 0]"
      from w nz w1 Children False obtain b3 kids' b4 where
        w2: "writeEBML_each ?b2 off kids = Inr (b3, kids')" and
        w3: "writeEBMLVarIntWidth (seek b3 (pos b1)) (int (pos b3) - int (pos ?b2)) 4 = Inr b4" and
        b': "b' = seek b4 (pos b3)"
        by (auto simp: Let_def simp del: writeBytes.simps split: sum.splits)
      have q2: "q \<le> pos ?b2" using q1 by simp
      from writeEBML_frame(2) [OF w2 q2]
      have k3: "pos ?b2 \<le> pos b3" "keeps q ?b2 b3" by simp_all
      have "q \<le> pos (seek b3 (pos b1))" using q1 by simp
      from keeps_writeEBMLVarIntWidth [OF w3 this] have k4: "keeps q b3 b4" by simp
      have "keeps q b1 b4"
        using keeps_writeBytes [OF q1, of "[0, 0, 0, 0]"] k3(2) k4
        by (blast intro: keeps_trans)
      moreover have "pos b1 \<le> pos b3" using k3(1) by simp
      ultimately show ?thesis by (simp add: b')
    qed
  next
    case (Str str)
    with w nz w1 obtain b2 where
      w2: "writeEBMLVarInt b1 (int (length str)) = Inr b2" and b': "b' = writeString b2 str"
      by (auto simp: Let_def split: sum.splits)
    show ?thesis
      using keeps_writeEBMLVarInt [OF w2 q1] frame_writeString [of q b2 str] q1
      unfolding b' by (rule frame_chain)
  next
    case (Num n)
    with w nz w1 obtain b2 sz where
      w2: "writeEBMLVarInt b1 sz = Inr b2" and w3: "writeUnsignedIntBE b2 n (Some sz) = Inr b'"
      by (auto simp: Let_def split: sum.splits)
    show ?thesis
      using keeps_writeEBMLVarInt [OF w2 q1] keeps_writeUnsignedIntBE [OF w3, of q] q1
      by (rule frame_chain)
  next
    case (EBMLFloat64 d)
    with w nz w1 obtain b2 where
      w2: "writeEBMLVarInt b1 8 = Inr b2" and b': "b' = writeDoubleBE b2 d"
      by (auto simp: Let_def split: sum.splits)
    show ?thesis
      using keeps_writeEBMLVarInt [OF w2 q1] frame_writeDoubleBE [of q b2 d] q1
      unfolding b' by (rule frame_chain)
  next
    case (EBMLFloat32 d)
    with w nz w1 obtain b2 where
      w2: "writeEBMLVarInt b1 4 = Inr b2" and b': "b' = writeFloatBE b2 d"
      by (auto simp: Let_def split: sum.splits)
    show ?thesis
      using keeps_writeEBMLVarInt [OF w2 q1] frame_writeFloatBE [of q b2 d] q1
      unfolding b' by (rule frame_chain)
  next
    case (Bytes bs)
    with w nz w1 obtain b2 where
      w2: "writeEBMLVarInt b1 (int (length bs)) = Inr b2" and b': "b' = writeBytes b2 bs"
      by (auto simp: Let_def split: sum.splits)
    show ?thesis
      using keeps_writeEBMLVarInt [OF w2 q1] frame_writeBytes [of q b2 bs] q1
      unfolding b' by (rule frame_chain)
  next
    case NoData
    with w nz w1 show ?thesis by (simp add: Let_def)
  qed
qed

lemma element_offset:
  "writeEBML buffer off (Element eid esize edata eoff edoff) = Inr (b', e') \<Longrightarrow>
   el_offset e' = Some (pos buffer + off)"
  by (auto simp: Let_def simp del: writeBytes.simps
      split: if_splits sum.splits ebml_data.splits prod.splits)

lemma byte_numerals:
  "(8003 :: 8 word) = 67" "(2048950 :: 8 word) = 182" "(524531317 :: 8 word) = 117"
  "(6725 :: 8 word) = 69" "(1721823 :: 8 word) = 223" "(440786851 :: 8 word) = 163"
  by code_simp+

lemma id4_bytes:
  "writeUnsignedIntBE b 0x1f43b675 None = Inr (writeBytes b [0x1f, 0x43, 0xb6, 0x75])"
  "writeUnsignedIntBE b 0x1a45dfa3 None = Inr (writeBytes b [0x1a, 0x45, 0xdf, 0xa3])"
  using toUint8_js_sar [of 24 "0x1f43b675"] toUint8_js_sar [of 16 "0x1f43b675"]
    toUint8_js_sar [of 8 "0x1f43b675"]
    toUint8_js_sar [of 24 "0x1a45dfa3"] toUint8_js_sar [of 16 "0x1a45dfa3"]
    toUint8_js_sar [of 8 "0x1a45dfa3"]
  by (simp_all add: writeUnsignedIntBE_def measureUnsignedInt_def uint_from4_def uint_from3_def
      uint_from2_def uint_from1_def writeU8_def writeByte_def toUint8_def byte_numerals)

lemma element_starts_with_id:
  assumes w: "writeEBML (new_ArrayBufferDataStream n) off (Element eid esize edata eoff edoff)
                = Inr (b', e')"
    and w1: "writeUnsignedIntBE (new_ArrayBufferDataStream n) eid None
                = Inr (writeBytes (new_ArrayBufferDataStream n) idb)"
    and fit: "length idb \<le> n"
    and get: "getAsDataArray b' = Inr bytes"
    and k: "k = length idb"
  shows "take k bytes = idb"
proof -
  let ?b1 = "writeBytes (new_ArrayBufferDataStream n) idb"
  have p1: "pos ?b1 = length idb" by simp
  from element_rest [OF w w1, of "length idb"]
  have k': "length idb \<le> pos b'" "keeps (length idb) ?b1 b'" by simp_all
  have "take (length idb) (data ?b1) = idb"
    using fit by (simp add: data_writeBytes)
  with k'(2) have d: "take (length idb) (data b') = idb"
    by (simp add: keeps_def)
  from get have "bytes = take (pos b') (data b')"
    by (auto simp: getAsDataArray_def split: if_splits)
  with k'(1) d show ?thesis unfolding k by (simp add: min_absorb1)
qed

lemma siblings_start_with_id:
  assumes w: "writeEBML (new_ArrayBufferDataStream n) off
                (Siblings (Element eid esize edata eoff edoff # rest)) = Inr (b', e')"
    and w1: "writeUnsignedIntBE (new_ArrayBufferDataStream n) eid None
                = Inr (writeBytes (new_ArrayBufferDataStream n) idb)"
    and fit: "length idb \<le> n"
    and get: "getAsDataArray b' = Inr bytes"
    and k: "k = length idb"
  shows "take k bytes = idb"
proof -
  let ?b1 = "writeBytes (new_ArrayBufferDataStream n) idb"
  from w obtain b2 e2 rest' where
    w2: "writeEBML (new_ArrayBufferDataStream n) off (Element eid esize edata eoff edoff)
           = Inr (b2, e2)" and
    w3: "writeEBML_each b2 off rest = Inr (b', rest')"
    by (auto simp del: writeEBML.simps(4) split: sum.splits)
  from element_rest [OF w2 w1, of "length idb"]
  have k2: "length idb \<le> pos b2" "keeps (length idb) ?b1 b2" by simp_all
  from writeEBML_frame(2) [OF w3 k2(1)]
  have k3: "pos b2 \<le> pos b'" "keeps (length idb) b2 b'" by simp_all
  have "take (length idb) (data ?b1) = idb"
    using fit by (simp add: data_writeBytes)
  with k2(2) k3(2) have d: "take (length idb) (data b') = idb"
    by (simp add: keeps_def)
  from get have "bytes = take (pos b') (data b')"
    by (auto simp: getAsDataArray_def split: if_splits)
  with k2(1) k3(1) d show ?thesis unfolding k by (simp add: min_absorb1)
qed

lemma writeHeader_effect:
  assumes "writeHeader st = Inr st'"
  shows "\<exists>bytes sh seg p1 p2.
    st' = st\<lparr>seekHead := Some sh, ebmlSegment := Some seg,
              blobBuffer := blob_write (blobBuffer st) bytes,
              seekPoints_SegmentInfo := p1, seekPoints_Tracks := p2, writtenHeader := True\<rparr> \<and>
    take 4 bytes = [0x1a, 0x45, 0xdf, 0xa3]"
proof -
  let ?tree = "Siblings [ebmlHeader,
      Element 0x18538067 (Some (- 1)) (Children [createSeekHead, segmentInfo, tracks st]) None None]"
  from assms obtain b' written bytes where
    w: "writeEBML (new_ArrayBufferDataStream 256) (blob_pos (blobBuffer st)) ?tree = Inr (b', written)"
    and g: "getAsDataArray b' = Inr bytes"
    by (auto simp: writeHeader_def Let_def simp del: writeEBML.simps split: sum.splits)
  have t: "take 4 bytes = [0x1a, 0x45, 0xdf, 0xa3]"
    by (rule siblings_start_with_id [OF w [unfolded ebmlHeader_def leaf_def] id4_bytes(2) _ g])
      simp_all
  from assms w g obtain sh seg p1 p2 where
    "st' = st\<lparr>seekHead := Some sh, ebmlSegment := Some seg,
              blobBuffer := blob_write (blobBuffer st) bytes,
              seekPoints_SegmentInfo := p1, seekPoints_Tracks := p2, writtenHeader := True\<rparr>"
    by (auto simp: writeHeader_def Let_def simp del: writeEBML.simps
        split: sum.splits ebml.splits list.splits ebml_data.splits option.splits)
  with t show ?thesis by blast
qed

lemma flush_effect:
  assumes f: "flushClusterFrameBuffer st = Inr st'" and ne: "clusterFrameBuffer st \<noteq> []"
  shows "\<exists>bytes position.
    st' = st\<lparr>blobBuffer := blob_write (blobBuffer st) bytes,
              cues := cues st @ [cue_point (round (clusterStartTime st)) position],
              clusterFrameBuffer := [], clusterDuration := 0\<rparr> \<and>
    take 4 bytes = [0x1f, 0x43, 0xb6, 0x75] \<and>
    fileOffsetToSegmentRelative st (blob_pos (blobBuffer st)) = Inr position"
proof -
  let ?n = "rawImageSize (clusterFrameBuffer st) + length (clusterFrameBuffer st) * 64"
  from f ne obtain blocks b' cluster' bytes off st2 where
    w: "writeEBML (new_ArrayBufferDataStream ?n) (blob_pos (blobBuffer st))
          (data_push (createCluster (of_int (round (clusterStartTime st)))) blocks)
          = Inr (b', cluster')" and
    g: "getAsDataArray b' = Inr bytes" and
    o: "el_offset cluster' = Some off" and
    a: "addCuePoint (st\<lparr>blobBuffer := blob_write (blobBuffer st) bytes\<rparr>)
          DEFAULT_TRACK_NUMBER (round (clusterStartTime st)) off = Inr st2" and
    st': "st' = st2\<lparr>clusterFrameBuffer := [], clusterDuration := 0\<rparr>"
    by (auto simp: flushClusterFrameBuffer_def Let_def simp del: writeEBML.simps
        split: sum.splits option.splits)
  have c: "data_push (createCluster (of_int (round (clusterStartTime st)))) blocks
      = Element 0x1f43b675 None
          (Children (leaf 0xe7 (Num (round (clusterStartTime st))) # blocks)) None None"
    by (simp add: data_push_def createCluster_def leaf_def)
  from ne have n4: "length [0x1f, 0x43, 0xb6, 0x75 :: 8 word] \<le> ?n"
    by (cases "clusterFrameBuffer st") simp_all
  have t: "take 4 bytes = [0x1f, 0x43, 0xb6, 0x75]"
    by (rule element_starts_with_id [OF w [unfolded c] id4_bytes(1) n4 g]) simp
  from element_offset [OF w [unfolded c]] o
  have off: "off = blob_pos (blobBuffer st)"
    by (simp add: new_ArrayBufferDataStream_def)
  from a obtain position where
    p: "fileOffsetToSegmentRelative st off = Inr position" and
    st2: "st2 = st\<lparr>blobBuffer := blob_write (blobBuffer st) bytes,
              cues := cues st @ [cue_point (round (clusterStartTime st)) position]\<rparr>"
    by (auto simp: addCuePoint_def cue_point_def fileOffsetToSegmentRelative_def
        split: sum.splits option.splits ebml.splits)
  from st' st2 t p off show ?thesis by auto
qed

lemma cue_position_cue_point [simp]: "cue_position (cue_point t p) = Some p"
  by (simp add: cue_position_def cue_point_def leaf_def)

lemma addFrames_append:
  "addFrames st (xs @ ys) = (case addFrames st xs of Inl e \<Rightarrow> Inl e | Inr st' \<Rightarrow> addFrames st' ys)"
  by (induction xs arbitrary: st) (auto split: sum.splits)

lemma not_cluster_header: "take 4 bytes = [0x1a, 0x45, 0xdf, 0xa3] \<Longrightarrow> \<not> is_cluster_write (p, bytes)"
  by (simp add: is_cluster_write_def)

lemma queue_fields:
  "cues (addFrameToCluster_queue st fr) = cues st"
  "blobBuffer (addFrameToCluster_queue st fr) = blobBuffer st"
  "ebmlSegment (addFrameToCluster_queue st fr) = ebmlSegment st"
  "writtenHeader (addFrameToCluster_queue st fr) = writtenHeader st"
  "clusterFrameBuffer (addFrameToCluster_queue st fr) \<noteq> []"
  "firstTimestampEver (addFrameToCluster_queue st fr) = False"
  "earliestTimestamp (addFrameToCluster_queue st fr) =
     (if firstTimestampEver st then intime fr / 1000 else earliestTimestamp st)"
  by (simp_all add: addFrameToCluster_queue_def Let_def)

lemma addFrame_header_step:
  "addFrame st arg =
    (case header_step st of
       Inl e \<Rightarrow> Inl e
     | Inr st1 \<Rightarrow>
        (case arg of
           Chunk c \<Rightarrow>
             addFrameToCluster st1
               \<lparr>frame = chunk_bytes c, intime = chunk_timestamp c, frame_type = chunk_type c\<rparr>
         | NotAChunk \<Rightarrow> Inr st1))"
  by (simp add: addFrame_def header_step_def)

lemma header_step_effect:
  assumes "header_step st = Inr st'"
  shows "clusterDuration st' = clusterDuration st" "clusterFrameBuffer st' = clusterFrameBuffer st"
    "clusterStartTime st' = clusterStartTime st" "firstTimestampEver st' = firstTimestampEver st"
    "earliestTimestamp st' = earliestTimestamp st" "lastTimeCode st' = lastTimeCode st"
    "cues st' = cues st" "clusters_written st' = clusters_written st" "writtenHeader st'"
proof -
  have "clusterDuration st' = clusterDuration st \<and> clusterFrameBuffer st' = clusterFrameBuffer st \<and>
    clusterStartTime st' = clusterStartTime st \<and> firstTimestampEver st' = firstTimestampEver st \<and>
    earliestTimestamp st' = earliestTimestamp st \<and> lastTimeCode st' = lastTimeCode st \<and>
    cues st' = cues st \<and> clusters_written st' = clusters_written st \<and> writtenHeader st'"
  proof (cases "writtenHeader st")
    case True
    with assms show ?thesis by (simp add: header_step_def)
  next
    case False
    with assms have "writeHeader (st\<lparr>videoWidth := options_width st, videoHeight := options_height st\<rparr>)
        = Inr st'"
      by (simp add: header_step_def)
    from writeHeader_effect [OF this] obtain bytes sh seg p1 p2 where
      st': "st' = st\<lparr>videoWidth := options_width st, videoHeight := options_height st,
              seekHead := Some sh, ebmlSegment := Some seg,
              blobBuffer := blob_write (blobBuffer st) bytes,
              seekPoints_SegmentInfo := p1, seekPoints_Tracks := p2, writtenHeader := True\<rparr>" and
      t: "take 4 bytes = [0x1a, 0x45, 0xdf, 0xa3]"
      by auto
    from not_cluster_header [OF t] show ?thesis
      unfolding st' by (simp add: clusters_written_def blob_write_def)
  qed
  then show "clusterDuration st' = clusterDuration st" "clusterFrameBuffer st' = clusterFrameBuffer st"
    "clusterStartTime st' = clusterStartTime st" "firstTimestampEver st' = firstTimestampEver st"
    "earliestTimestamp st' = earliestTimestamp st" "lastTimeCode st' = lastTimeCode st"
    "cues st' = cues st" "clusters_written st' = clusters_written st" "writtenHeader st'"
    by simp_all
qed

lemma flush_properties:
  assumes "flushClusterFrameBuffer s = Inr s'" "clusterFrameBuffer s \<noteq> []"
  shows "clusterFrameBuffer s' = [] \<and> clusterDuration s' = 0 \<and>
    (\<exists>cue position bytes.
       cues s' = cues s @ [cue] \<and>
       cue_position cue = Some position \<and>
       fileOffsetToSegmentRelative s (blob_pos (blobBuffer s)) = Inr position \<and>
       blob_writes (blobBuffer s') = blob_writes (blobBuffer s) @ [(blob_pos (blobBuffer s), bytes)] \<and>
       is_cluster_write (blob_pos (blobBuffer s), bytes)) \<and>
    firstTimestampEver s' = firstTimestampEver s \<and> earliestTimestamp s' = earliestTimestamp s \<and>
    length (clusters_written s') = length (clusters_written s) + 1 \<and>
    length (cues s') = length (cues s) + 1"
proof -
  from flush_effect [OF assms] obtain bytes position where
    s': "s' = s\<lparr>blobBuffer := blob_write (blobBuffer s) bytes,
              cues := cues s @ [cue_point (round (clusterStartTime s)) position],
              clusterFrameBuffer := [], clusterDuration := 0\<rparr>" and
    t: "take 4 bytes = [0x1f, 0x43, 0xb6, 0x75]" and
    p: "fileOffsetToSegmentRelative s (blob_pos (blobBuffer s)) = Inr position"
    by auto
  have c: "is_cluster_write (blob_pos (blobBuffer s), bytes)"
    using t by (simp add: is_cluster_write_def)
  show ?thesis
    unfolding s' using c p
    by (simp add: blob_write_def clusters_written_def)
qed

lemma addFrameToCluster_inv:
  assumes "addFrameToCluster st fr = Inr st'" "length (cues st) = length (clusters_written st)"
  shows "cluster_inv st'"
proof (cases "clusterDuration (addFrameToCluster_queue st fr) \<ge> MAX_CLUSTER_DURATION_MSEC")
  case True
  with assms(1) have f: "flushClusterFrameBuffer (addFrameToCluster_queue st fr) = Inr st'"
    by (simp add: addFrameToCluster_def Let_def)
  from flush_properties [OF f queue_fields(5)] assms(2) show ?thesis
    by (simp add: cluster_inv_def MAX_CLUSTER_DURATION_MSEC_def clusters_written_def queue_fields)
next
  case False
  with assms(1) have "st' = addFrameToCluster_queue st fr"
    by (simp add: addFrameToCluster_def Let_def)
  with False assms(2) show ?thesis
    by (simp add: cluster_inv_def clusters_written_def queue_fields)
qed

lemma addFrame_inv:
  assumes "addFrame st arg = Inr st'" "cluster_inv st"
  shows "cluster_inv st'"
proof -
  from assms(1) obtain st1 where h: "header_step st = Inr st1"
    by (auto simp: addFrame_header_step split: sum.splits)
  note e = header_step_effect [OF h]
  show ?thesis
  proof (cases arg)
    case (Chunk c)
    with assms(1) h have "addFrameToCluster st1
        \<lparr>frame = chunk_bytes c, intime = chunk_timestamp c, frame_type = chunk_type c\<rparr> = Inr st'"
      by (simp add: addFrame_header_step)
    from addFrameToCluster_inv [OF this] assms(2) e show ?thesis
      by (simp add: cluster_inv_def)
  next
    case NotAChunk
    with assms(1) h have "st' = st1" by (simp add: addFrame_header_step)
    with assms(2) e show ?thesis by (simp add: cluster_inv_def)
  qed
qed

lemma addFrames_inv:
  "addFrames st args = Inr st' \<Longrightarrow> cluster_inv st \<Longrightarrow> cluster_inv st'"
proof (induction args arbitrary: st)
  case Nil
  then show ?case by simp
next
  case (Cons arg args)
  from Cons.prems(1) obtain st1 where a: "addFrame st arg = Inr st1" "addFrames st1 args = Inr st'"
    by (auto split: sum.splits)
  from Cons.IH [OF a(2) addFrame_inv [OF a(1) Cons.prems(2)]] show ?case .
qed

subsection \<open>Once the header is written, no call throws\<close>

lemma simple_block_written:
  assumes "length h = 4"
  shows "\<exists>b' e'. writeEBML b off (leaf 0xa3 (Children [RawBytes h, RawBytes f])) = Inr (b', e') \<and>
           pos b' = pos b + 9 + length f"
proof -
  from writeUnsignedIntBE_id [of b "0xa3"] obtain idb where
    w1: "writeUnsignedIntBE b 0xa3 None = Inr (writeBytes b idb)" and
    l: "int (length idb) = measureUnsignedInt 0xa3"
    by blast
  from l have l1: "length idb = 1" by (simp add: measureUnsignedInt_def)
  let ?b1 = "writeBytes b idb"
  let ?b3 = "writeBytes (writeBytes (writeBytes ?b1 [0, 0, 0, 0]) h) f"
  have w2: "writeEBML_each (writeBytes ?b1 [0, 0, 0, 0]) off [RawBytes h, RawBytes f]
      = Inr (?b3, [RawBytes h, RawBytes f])"
    by (simp del: writeBytes.simps)
  obtain b4 where w3: "writeEBMLVarIntWidth (seek ?b3 (pos ?b1)) (int (pos ?b3) - int (pos ?b1 + 4)) 4
      = Inr b4"
    unfolding vint_bytes_4 by blast
  have "writeEBML b off (Element 0xa3 None (Children [RawBytes h, RawBytes f]) None None) =
      Inr (seek b4 (pos ?b3),
           Element 0xa3 (Some (int (pos ?b3) - int (pos ?b1 + 4)))
             (Children [RawBytes h, RawBytes f]) (Some (pos b + off)) (Some (pos ?b1 + 4 + off)))"
    by (rule writeEBML_bounded_eq [OF _ _ w1 w2 w3]) simp_all
  moreover have "pos (seek b4 (pos ?b3)) = pos b + 9 + length f"
    using assms l1 by simp
  ultimately show ?thesis unfolding leaf_def by blast
qed

lemma timecode_written:
  "\<exists>b' e'. writeEBML b off (leaf 0xe7 (Num t)) = Inr (b', e') \<and> pos b' \<le> pos b + 7"
proof -
  from writeUnsignedIntBE_id [of b "0xe7"] obtain idb where
    w1: "writeUnsignedIntBE b 0xe7 None = Inr (writeBytes b idb)" and
    l: "int (length idb) = measureUnsignedInt 0xe7"
    by blast
  from l have l1: "length idb = 1" by (simp add: measureUnsignedInt_def)
  let ?b1 = "writeBytes b idb"
  let ?sz = "measureUnsignedInt t"
  note r = measureUnsignedInt_range [of t]
  from r have m: "measureEBMLVarInt ?sz = Inr 1"
    by (simp add: measureEBMLVarInt_def)
  have w2: "writeEBMLVarInt ?b1 ?sz = Inr (writeBytes ?b1 [word_of_int (128 OR ?sz)])"
    by (simp add: writeEBMLVarInt_def m vint_bytes_1)
  let ?b2 = "writeBytes ?b1 [word_of_int (128 OR ?sz)]"
  from r have "?sz = 1 \<or> ?sz = 2 \<or> ?sz = 3 \<or> ?sz = 4 \<or> ?sz = 5" by arith
  then obtain b3 where w3: "writeUnsignedIntBE ?b2 t (Some ?sz) = Inr b3"
    by (auto simp: writeUnsignedIntBE_def)
  from writeUnsignedIntBE_bytes [OF w3] obtain bs where
    b3: "b3 = writeBytes ?b2 bs" "int (length bs) = ?sz"
    by auto
  have "writeEBML b off (leaf 0xe7 (Num t)) =
      Inr (b3, Element 0xe7 (Some ?sz) (Num t) (Some (pos b + off)) (Some (pos ?b2 + off)))"
    using w1 w2 w3 by (simp add: leaf_def Let_def del: writeBytes.simps)
  moreover have "pos b3 \<le> pos b + 7"
    using b3 l1 r by simp
  ultimately show ?thesis by blast
qed

lemma blocks_created:
  "\<forall>fr \<in> set frs. trackNumber fr = DEFAULT_TRACK_NUMBER \<Longrightarrow>
   \<exists>blocks. createSimpleBlocks frs = Inr blocks \<and> list_all2 block_shape frs blocks"
proof (induction frs)
  case Nil
  then show ?case by simp
next
  case (Cons fr frs)
  then obtain blocks where b: "createSimpleBlocks frs = Inr blocks" "list_all2 block_shape frs blocks"
    by auto
  from Cons.prems have t: "0 < trackNumber fr" "trackNumber fr < 127"
    by (simp_all add: DEFAULT_TRACK_NUMBER_def)
  have sh: "block_shape fr (leaf 0xa3 (Children [RawBytes h, RawBytes (frame fr)]))"
    if "length h = 4" for h
    unfolding block_shape_def using that by blast
  have "\<exists>block. createSimpleBlockForframe fr = Inr block \<and> block_shape fr block"
    unfolding simple_block_header [OF t]
    by (rule exI, rule conjI, rule refl, rule sh) simp
  with b show ?case by auto
qed

lemma blocks_written:
  "list_all2 block_shape frs blocks \<Longrightarrow>
   \<exists>b' es'. writeEBML_each b off blocks = Inr (b', es') \<and>
     pos b' = pos b + 9 * length frs + rawImageSize frs"
proof (induction frs blocks arbitrary: b rule: list_all2_induct)
  case Nil
  then show ?case by (simp add: rawImageSize_def)
next
  case (Cons fr frs block blocks)
  from Cons.hyps(1) obtain h where h: "length h = 4"
    "block = leaf 0xa3 (Children [RawBytes h, RawBytes (frame fr)])"
    by (auto simp: block_shape_def)
  from simple_block_written [OF h(1), of b off "frame fr"] obtain b1 e1 where
    w1: "writeEBML b off block = Inr (b1, e1)" and p1: "pos b1 = pos b + 9 + length (frame fr)"
    unfolding h(2) by blast
  from Cons.IH [of b1] obtain b' es' where
    w2: "writeEBML_each b1 off blocks = Inr (b', es')" and
    p2: "pos b' = pos b1 + 9 * length frs + rawImageSize frs"
    by blast
  have "writeEBML_each b off (block # blocks) = Inr (b', e1 # es')"
    using w1 w2 by (simp del: writeEBML.simps)
  moreover have "pos b' = pos b + 9 * length (fr # frs) + rawImageSize (fr # frs)"
    using p1 p2 by (simp add: rawImageSize_def)
  ultimately show ?case by blast
qed

lemma cluster_written:
  assumes "list_all2 block_shape frs blocks"
  shows "\<exists>b' e'. writeEBML (new_ArrayBufferDataStream n) off
            (Element 0x1f43b675 None (Children (leaf 0xe7 (Num t) # blocks)) None None)
            = Inr (b', e') \<and>
          pos b' \<le> 15 + 9 * length frs + rawImageSize frs \<and> length (data b') = n"
proof -
  let ?b = "new_ArrayBufferDataStream n"
  let ?b1 = "writeBytes ?b [0x1f, 0x43, 0xb6, 0x75]"
  let ?b2 = "writeBytes ?b1 [0, 0, 0, 0]"
  from timecode_written [of ?b2 off t] obtain bt et where
    wt: "writeEBML ?b2 off (leaf 0xe7 (Num t)) = Inr (bt, et)" and pt: "pos bt \<le> pos ?b2 + 7"
    by blast
  from blocks_written [OF assms, of bt off] obtain b3 es' where
    wb: "writeEBML_each bt off blocks = Inr (b3, es')" and
    pb: "pos b3 = pos bt + 9 * length frs + rawImageSize frs"
    by blast
  have w2: "writeEBML_each ?b2 off (leaf 0xe7 (Num t) # blocks) = Inr (b3, et # es')"
    using wt wb by (simp del: writeEBML.simps writeBytes.simps)
  obtain b4 where w3: "writeEBMLVarIntWidth (seek b3 (pos ?b1)) (int (pos b3) - int (pos ?b1 + 4)) 4
      = Inr b4"
    unfolding vint_bytes_4 by blast
  have w: "writeEBML ?b off (Element 0x1f43b675 None (Children (leaf 0xe7 (Num t) # blocks)) None None)
      = Inr (seek b4 (pos b3),
             Element 0x1f43b675 (Some (int (pos b3) - int (pos ?b1 + 4)))
               (Children (et # es')) (Some (pos ?b + off)) (Some (pos ?b1 + 4 + off)))"
    by (rule writeEBML_bounded_eq [OF _ _ id4_bytes(1) w2 w3]) simp_all
  have p: "pos (seek b4 (pos b3)) \<le> 15 + 9 * length frs + rawImageSize frs"
    using pt pb by simp
  from writeEBML_frame(1) [OF w, of 0]
  have "length (data (seek b4 (pos b3))) = n"
    by (simp add: keeps_def)
  with w p show ?thesis by blast
qed

lemma fileOffset_ready:
  assumes "fileOffsetToSegmentRelative st a = Inr p" "ebmlSegment st' = ebmlSegment st"
  shows "\<exists>p'. fileOffsetToSegmentRelative st' a' = Inr p'"
  using assms
  by (auto simp: fileOffsetToSegmentRelative_def split: option.splits ebml.splits)

lemma flush_total:
  assumes ne: "clusterFrameBuffer s \<noteq> []"
    and tr: "\<forall>fr \<in> set (clusterFrameBuffer s). trackNumber fr = DEFAULT_TRACK_NUMBER"
    and rd: "fileOffsetToSegmentRelative s a = Inr p"
  shows "\<exists>s'. flushClusterFrameBuffer s = Inr s'"
proof -
  let ?frs = "clusterFrameBuffer s"
  let ?n = "rawImageSize ?frs + length ?frs * 64"
  from blocks_created [OF tr] obtain blocks where
    b: "createSimpleBlocks ?frs = Inr blocks" "list_all2 block_shape ?frs blocks"
    by blast
  have c: "data_push (createCluster (of_int (round (clusterStartTime s)))) blocks
      = Element 0x1f43b675 None
          (Children (leaf 0xe7 (Num (round (clusterStartTime s))) # blocks)) None None"
    by (simp add: data_push_def createCluster_def leaf_def)
  from cluster_written [OF b(2), of ?n "blob_pos (blobBuffer s)" "round (clusterStartTime s)"]
  obtain b' e' where
    w: "writeEBML (new_ArrayBufferDataStream ?n) (blob_pos (blobBuffer s))
          (data_push (createCluster (of_int (round (clusterStartTime s)))) blocks) = Inr (b', e')" and
    p: "pos b' \<le> 15 + 9 * length ?frs + rawImageSize ?frs" and l: "length (data b') = ?n"
    unfolding c by blast
  from ne have "1 \<le> length ?frs" by (cases ?frs) simp_all
  with p l have "pos b' \<le> length (data b')" by simp
  then have "\<exists>bytes. getAsDataArray b' = Inr bytes"
    by (simp add: getAsDataArray_def)
  then obtain bytes where g: "getAsDataArray b' = Inr bytes"
    by blast
  from element_offset [OF w [unfolded c]] have o: "el_offset e' = Some (blob_pos (blobBuffer s))"
    by (simp add: new_ArrayBufferDataStream_def)
  from fileOffset_ready [OF rd, of "s\<lparr>blobBuffer := blob_write (blobBuffer s) bytes\<rparr>"
      "blob_pos (blobBuffer s)"]
  obtain p' where "fileOffsetToSegmentRelative (s\<lparr>blobBuffer := blob_write (blobBuffer s) bytes\<rparr>)
      (blob_pos (blobBuffer s)) = Inr p'"
    by auto
  then obtain s2 where a: "addCuePoint (s\<lparr>blobBuffer := blob_write (blobBuffer s) bytes\<rparr>)
      DEFAULT_TRACK_NUMBER (round (clusterStartTime s)) (blob_pos (blobBuffer s)) = Inr s2"
    by (simp add: addCuePoint_def)
  from ne b(1) w g o a show ?thesis
    by (simp add: flushClusterFrameBuffer_def Let_def del: writeEBML.simps)
qed


lemma writeHeader_ready:
  assumes "writeHeader st = Inr st'"
  shows "\<exists>a p. fileOffsetToSegmentRelative st' a = Inr p"
proof -
  from assms obtain st1 a p p1 p2 where
    "fileOffsetToSegmentRelative st1 a = Inr p"
    "st' = st1\<lparr>seekPoints_SegmentInfo := p1, seekPoints_Tracks := p2, writtenHeader := True\<rparr>"
    by (auto simp: writeHeader_def Let_def simp del: writeEBML.simps
        split: sum.splits ebml.splits list.splits ebml_data.splits option.splits)
  from fileOffset_ready [OF this(1), of st' a] this(2) show ?thesis
    by auto
qed

lemma header_step_ready:
  assumes h: "header_step st = Inr s1" and r: "ready_inv st"
  shows "ready_inv s1 \<and> writtenHeader s1"
proof (cases "writtenHeader st")
  case True
  with h r show ?thesis by (simp add: header_step_def)
next
  case False
  with h have "writeHeader (st\<lparr>videoWidth := options_width st, videoHeight := options_height st\<rparr>)
      = Inr s1"
    by (simp add: header_step_def)
  from writeHeader_ready [OF this] obtain a p where "fileOffsetToSegmentRelative s1 a = Inr p"
    by blast
  from fileOffset_ready [OF this, of s1 0] have "\<exists>p. fileOffsetToSegmentRelative s1 0 = Inr p"
    by simp
  with r header_step_effect(2,9) [OF h] show ?thesis
    by (simp add: ready_inv_def)
qed

lemma queue_ready:
  assumes "ready_inv st" "writtenHeader st"
  shows "ready_inv (addFrameToCluster_queue st fr)"
proof -
  from assms obtain p where p: "fileOffsetToSegmentRelative st 0 = Inr p"
    by (auto simp: ready_inv_def)
  from fileOffset_ready [OF p, of "addFrameToCluster_queue st fr" 0]
  have "\<exists>p. fileOffsetToSegmentRelative (addFrameToCluster_queue st fr) 0 = Inr p"
    by (simp add: queue_fields)
  moreover have "\<forall>fr' \<in> set (clusterFrameBuffer (addFrameToCluster_queue st fr)).
      trackNumber fr' = DEFAULT_TRACK_NUMBER"
    using assms(1) by (simp add: ready_inv_def addFrameToCluster_queue_def Let_def)
  ultimately show ?thesis by (simp add: ready_inv_def)
qed

lemma addFrameToCluster_total:
  assumes "ready_inv st" "writtenHeader st"
  shows "\<exists>st'. addFrameToCluster st fr = Inr st' \<and> ready_inv st' \<and> writtenHeader st'"
proof (cases "clusterDuration (addFrameToCluster_queue st fr) \<ge> MAX_CLUSTER_DURATION_MSEC")
  case True
  let ?q = "addFrameToCluster_queue st fr"
  note q = queue_ready [OF assms, of fr]
  then obtain p where p: "fileOffsetToSegmentRelative ?q 0 = Inr p"
    using assms(2) by (auto simp: ready_inv_def queue_fields)
  from q have t: "\<forall>fr' \<in> set (clusterFrameBuffer ?q). trackNumber fr' = DEFAULT_TRACK_NUMBER"
    by (simp add: ready_inv_def)
  from flush_total [OF queue_fields(5) t p] obtain s' where
    f: "flushClusterFrameBuffer ?q = Inr s'"
    by blast
  from flush_effect [OF f queue_fields(5)] obtain bytes position where
    s': "s' = ?q\<lparr>blobBuffer := blob_write (blobBuffer ?q) bytes,
              cues := cues ?q @ [cue_point (round (clusterStartTime ?q)) position],
              clusterFrameBuffer := [], clusterDuration := 0\<rparr>"
    by auto
  from fileOffset_ready [OF p, of s' 0] have "\<exists>p. fileOffsetToSegmentRelative s' 0 = Inr p"
    unfolding s' by simp
  then have "ready_inv s' \<and> writtenHeader s'"
    using assms(2) unfolding s' by (simp add: ready_inv_def queue_fields)
  with True f show ?thesis
    by (simp add: addFrameToCluster_def Let_def)
next
  case False
  with queue_ready [OF assms, of fr] assms(2) show ?thesis
    by (simp add: addFrameToCluster_def Let_def queue_fields)
qed

lemma addFrame_total:
  assumes "ready_inv st" "header_step st = Inr s1"
  shows "\<exists>st'. addFrame st arg = Inr st' \<and> ready_inv st' \<and> writtenHeader st'"
proof (cases arg)
  case (Chunk c)
  from header_step_ready [OF assms(2,1)] addFrameToCluster_total show ?thesis
    unfolding addFrame_header_step Chunk assms(2) by simp
next
  case NotAChunk
  from header_step_ready [OF assms(2,1)] show ?thesis
    unfolding addFrame_header_step NotAChunk assms(2) by simp
qed

lemma addFrames_total:
  assumes "ready_inv st" "header_step st = Inr s1"
  shows "\<exists>st'. addFrames st args = Inr st'"
  using assms
proof (induction args arbitrary: st s1)
  case Nil
  then show ?case by simp
next
  case (Cons arg args)
  from addFrame_total [OF Cons.prems, of arg] obtain s2 where
    a: "addFrame st arg = Inr s2" "ready_inv s2" "writtenHeader s2"
    by blast
  from a(3) have "header_step s2 = Inr s2" by (simp add: header_step_def)
  from Cons.IH [OF a(2) this] a(1) show ?case by simp
qed

lemma new_WebMWriter_ready: "ready_inv (new_WebMWriter codec width height)"
  by (simp add: ready_inv_def new_WebMWriter_def)

lemma new_WebMWriter_inv: "cluster_inv (new_WebMWriter codec width height)"
  by (simp add: cluster_inv_def new_WebMWriter_def MAX_CLUSTER_DURATION_MSEC_def
      clusters_written_def new_BlobBuffer_def)


lemma queue_time:
  "lastTimeCode (addFrameToCluster_queue st fr) =
     (if firstTimestampEver st then 0 else intime fr / 1000 - earliestTimestamp st)"
  by (simp add: addFrameToCluster_queue_def Let_def)

lemma queue_start:
  "clusterStartTime (addFrameToCluster_queue st fr) =
     (if clusterDuration st = 0 then lastTimeCode (addFrameToCluster_queue st fr)
      else clusterStartTime st)"
  by (simp add: addFrameToCluster_queue_def Let_def)

lemma queue_duration:
  "clusterDuration (addFrameToCluster_queue st fr) =
     round (lastTimeCode (addFrameToCluster_queue st fr) -
            clusterStartTime (addFrameToCluster_queue st fr)) + 1"
  by (simp add: addFrameToCluster_queue_def Let_def)

lemma queue_buffer:
  "clusterFrameBuffer (addFrameToCluster_queue st fr) = clusterFrameBuffer st @
     [\<lparr>frame = frame fr, intime = intime fr, frame_type = frame_type fr,
       trackNumber = DEFAULT_TRACK_NUMBER,
       timecode = round (lastTimeCode (addFrameToCluster_queue st fr) -
                         clusterStartTime (addFrameToCluster_queue st fr))\<rparr>]"
  by (simp add: addFrameToCluster_queue_def Let_def)

lemma norm_inv_first:
  assumes "norm_inv cs st"
  shows "firstTimestampEver st \<longleftrightarrow> cs = []"
    and "cs \<noteq> [] \<Longrightarrow> earliestTimestamp st = chunk_timestamp (hd cs) / 1000"
  using assms unfolding norm_inv_def by blast+

lemma queue_values:
  assumes "norm_inv cs st"
  shows "lastTimeCode (addFrameToCluster_queue st (frame_of c)) = normalized_time cs c"
    and "clusterStartTime (addFrameToCluster_queue st (frame_of c)) =
          (if clusterDuration st = 0 then normalized_time cs c else clusterStartTime st)"
    and "clusterFrameBuffer (addFrameToCluster_queue st (frame_of c)) = clusterFrameBuffer st @
          [\<lparr>frame = chunk_bytes c, intime = chunk_timestamp c, frame_type = chunk_type c,
            trackNumber = DEFAULT_TRACK_NUMBER,
            timecode = round (normalized_time cs c -
                              clusterStartTime (addFrameToCluster_queue st (frame_of c)))\<rparr>]"
    and "clusterDuration (addFrameToCluster_queue st (frame_of c)) =
          round (normalized_time cs c -
                 clusterStartTime (addFrameToCluster_queue st (frame_of c))) + 1"
    and "firstTimestampEver (addFrameToCluster_queue st (frame_of c)) = False"
    and "earliestTimestamp (addFrameToCluster_queue st (frame_of c)) =
          chunk_timestamp (hd (cs @ [c])) / 1000"
proof -
  let ?q = "addFrameToCluster_queue st (frame_of c)"
  show t: "lastTimeCode ?q = normalized_time cs c"
    unfolding queue_time norm_inv_first(1) [OF assms]
    using norm_inv_first(2) [OF assms] by (simp add: normalized_time_def frame_of_def)
  show "clusterStartTime ?q =
          (if clusterDuration st = 0 then normalized_time cs c else clusterStartTime st)"
    unfolding queue_start t ..
  show "clusterFrameBuffer ?q = clusterFrameBuffer st @
          [\<lparr>frame = chunk_bytes c, intime = chunk_timestamp c, frame_type = chunk_type c,
            trackNumber = DEFAULT_TRACK_NUMBER,
            timecode = round (normalized_time cs c - clusterStartTime ?q)\<rparr>]"
    using queue_buffer [of st "frame_of c"] unfolding t by (simp add: frame_of_def)
  show "clusterDuration ?q = round (normalized_time cs c - clusterStartTime ?q) + 1"
    using queue_duration [of st "frame_of c"] unfolding t .
  show "firstTimestampEver ?q = False"
    by (rule queue_fields)
  show "earliestTimestamp ?q = chunk_timestamp (hd (cs @ [c])) / 1000"
    unfolding queue_fields norm_inv_first(1) [OF assms]
    using norm_inv_first(2) [OF assms] by (cases cs) (simp_all add: frame_of_def)
qed

lemma round_nonneg: "0 \<le> x \<Longrightarrow> 0 \<le> round (x::real)"
  using round_mono [of 0 x] by simp

lemma normalized_time_mono:
  assumes "sorted (map chunk_timestamp (cs @ [c]))" "cs \<noteq> []"
  shows "chunk_timestamp (last cs) / 1000 - chunk_timestamp (hd cs) / 1000 \<le> normalized_time cs c"
proof -
  from assms have "chunk_timestamp (last cs) \<le> chunk_timestamp c"
    by (auto simp: sorted_append)
  with assms(2) show ?thesis by (simp add: normalized_time_def)
qed

lemma queue_inv:
  assumes "norm_inv cs st"
  shows "norm_inv (cs @ [c]) (addFrameToCluster_queue st (frame_of c))"
proof -
  let ?q = "addFrameToCluster_queue st (frame_of c)"
  let ?n = "normalized_time cs c"
  note v = queue_values [OF assms, of c]
  have last: "lastTimeCode ?q =
      chunk_timestamp (last (cs @ [c])) / 1000 - chunk_timestamp (hd (cs @ [c])) / 1000"
    unfolding v(1) by (cases cs) (simp_all add: normalized_time_def)
  have ne: "clusterFrameBuffer ?q \<noteq> []"
    unfolding v(3) by simp
  have srt: "clusterStartTime ?q \<le> lastTimeCode ?q \<and> 1 \<le> clusterDuration ?q"
    if s: "sorted (map chunk_timestamp (cs @ [c]))"
  proof -
    have le: "clusterStartTime ?q \<le> ?n"
    proof (cases "clusterDuration st = 0")
      case True
      then show ?thesis by (simp add: v(2))
    next
      case False
      with assms have b: "clusterFrameBuffer st \<noteq> []" by (auto simp: norm_inv_def)
      with assms have c: "cs \<noteq> []" by (auto simp: norm_inv_def)
      from s have "sorted (map chunk_timestamp cs)" by (simp add: sorted_append)
      with assms b c have "clusterStartTime st \<le>
          chunk_timestamp (last cs) / 1000 - chunk_timestamp (hd cs) / 1000"
        by (auto simp: norm_inv_def)
      also note normalized_time_mono [OF s c]
      finally show ?thesis using False by (simp add: v(2))
    qed
    then have "0 \<le> round (?n - clusterStartTime ?q)"
      by (intro round_nonneg) simp
    with le show ?thesis by (simp add: v(1) v(4))
  qed
  show ?thesis
    unfolding norm_inv_def using last ne srt v(5) v(6) by simp
qed

lemma flush_keeps_norm_inv:
  assumes "flushClusterFrameBuffer s = Inr s'" "norm_inv cs s" "cs \<noteq> []"
  shows "norm_inv cs s'"
proof (cases "clusterFrameBuffer s = []")
  case True
  with assms(1) have "s' = s" by (simp add: flushClusterFrameBuffer_def)
  with assms(2) show ?thesis by simp
next
  case False
  from flush_effect [OF assms(1) False] obtain bytes position where
    "s' = s\<lparr>blobBuffer := blob_write (blobBuffer s) bytes,
              cues := cues s @ [cue_point (round (clusterStartTime s)) position],
              clusterFrameBuffer := [], clusterDuration := 0\<rparr>"
    by auto
  with assms(2,3) show ?thesis by (simp add: norm_inv_def)
qed

lemma header_step_norm_inv:
  assumes "header_step st = Inr sth" "norm_inv cs st"
  shows "norm_inv cs sth"
  using assms(2) header_step_effect [OF assms(1)] by (simp add: norm_inv_def)

lemma addFrame_chunk:
  assumes "header_step st = Inr sth"
  shows "addFrame st (Chunk c) =
    (if clusterDuration (addFrameToCluster_queue sth (frame_of c)) \<ge> MAX_CLUSTER_DURATION_MSEC
     then flushClusterFrameBuffer (addFrameToCluster_queue sth (frame_of c))
     else Inr (addFrameToCluster_queue sth (frame_of c)))"
  using assms by (simp add: addFrame_header_step addFrameToCluster_def Let_def frame_of_def)

lemma addFrame_norm_inv:
  assumes "addFrame st (Chunk c) = Inr st'" "norm_inv cs st"
  shows "norm_inv (cs @ [c]) st'"
proof -
  from assms(1) obtain sth where h: "header_step st = Inr sth"
    by (auto simp: addFrame_header_step split: sum.splits)
  from queue_inv [OF header_step_norm_inv [OF h assms(2)], of c]
  have q: "norm_inv (cs @ [c]) (addFrameToCluster_queue sth (frame_of c))" .
  from assms(1) show ?thesis
    unfolding addFrame_chunk [OF h]
    using q flush_keeps_norm_inv [of "addFrameToCluster_queue sth (frame_of c)" st' "cs @ [c]"]
    by (auto split: if_splits)
qed

lemma addFrames_norm_inv:
  "addFrames (new_WebMWriter codec width height) (map Chunk cs) = Inr st \<Longrightarrow> norm_inv cs st"
proof (induction cs arbitrary: st rule: rev_induct)
  case Nil
  then show ?case by (auto simp: norm_inv_def new_WebMWriter_def)
next
  case (snoc c cs)
  from snoc.prems obtain st1 where
    a: "addFrames (new_WebMWriter codec width height) (map Chunk cs) = Inr st1" and
    b: "addFrame st1 (Chunk c) = Inr st"
    by (auto simp: addFrames_append split: sum.splits)
  from addFrame_norm_inv [OF b snoc.IH [OF a]] show ?case .
qed


lemma not_isl_Inr: "\<not> isl x \<Longrightarrow> \<exists>y. x = Inr y"
  by (cases x) auto



end
